theory Spec2Isabelle
  imports Complex_Main "HOL-Library.AList"
begin

section \<open>JavaScript values used by the application\<close>

subsection \<open>Strings and numbers\<close>

text \<open>
  A JavaScript string is modelled by the bytes of its UTF-8 encoding (\<open>string\<close>), which
  is what the percent-encoders of the browser work on. The decimal rendering of a
  non-negative integer (\<open>String(n)\<close>, a template literal \<open>${n}\<close>) is \<open>showNat\<close>.
\<close>

definition isDigit :: "char \<Rightarrow> bool" where
  "isDigit c = (48 \<le> (of_char c :: nat) \<and> (of_char c :: nat) \<le> 57)"

definition isSpace :: "char \<Rightarrow> bool" where
  "isSpace c = ((of_char c :: nat) \<in> {9, 10, 11, 12, 13, 32})"

definition digitChar :: "nat \<Rightarrow> char" where
  "digitChar d = char_of (48 + d)"

fun showNat :: "nat \<Rightarrow> string" where
  "showNat n = (if n < 10 then [digitChar n] else showNat (n div 10) @ [digitChar (n mod 10)])"

declare showNat.simps [simp del]

definition showInt :: "int \<Rightarrow> string" where
  "showInt i = (if i < 0 then CHR ''-'' # showNat (nat (- i)) else showNat (nat i))"

definition readNat :: "string \<Rightarrow> nat" where
  "readNat s = foldl (\<lambda>a c. 10 * a + ((of_char c :: nat) - 48)) 0 s"

text \<open>
  \<open>String.prototype.trim\<close> and the class \<open>\s\<close> of a regular expression, on the ASCII
  white space characters: tab, line feed, vertical tab, form feed, carriage return and
  space. JavaScript counts some characters outside ASCII as white space too (U+00A0,
  U+FEFF, U+2028 and others); \<open>trim\<close> below is exact on a string that neither begins nor
  ends with one of those, as the titles and file names of the feeds are.
\<close>

definition trim :: "string \<Rightarrow> string" where
  "trim s = rev (dropWhile isSpace (rev (dropWhile isSpace s)))"

text \<open>\<open>s.includes(sub)\<close>: \<open>sub\<close> occurs in \<open>s\<close> as a contiguous run.\<close>

fun str_includes :: "string \<Rightarrow> string \<Rightarrow> bool" where
  "str_includes [] sub = (sub = [])"
| "str_includes (c # cs) sub = (take (length sub) (c # cs) = sub \<or> str_includes cs sub)"

text \<open>\<open>parts.join(sep)\<close>.\<close>

fun join :: "string \<Rightarrow> string list \<Rightarrow> string" where
  "join sep [] = []"
| "join sep [p] = p"
| "join sep (p # q # ps) = p @ sep @ join sep (q # ps)"

subsection \<open>Values of option fields\<close>

text \<open>
  The option objects handed to the viewer-URL builder hold numbers and strings or leave
  a field out; \<open>a || b\<close> picks \<open>a\<close> when it is truthy. The numbers the callers pass are
  page numbers and zoom percentages: \<open>JNum n\<close> stands for an integer of magnitude below
  \<open>10\<^sup>2\<^sup>1\<close>, for which \<open>String(n)\<close> is the decimal numeral that \<open>toString\<close> gives.
  Fractions, numbers \<open>String\<close> writes with an exponent, and booleans are not values of
  this type.
\<close>

datatype jsval = JUndefined | JNull | JNum int | JStr string

fun truthy :: "jsval \<Rightarrow> bool" where
  "truthy JUndefined = False"
| "truthy JNull = False"
| "truthy (JNum n) = (n \<noteq> 0)"
| "truthy (JStr s) = (s \<noteq> [])"

definition jsOr :: "jsval \<Rightarrow> jsval \<Rightarrow> jsval" where
  "jsOr a b = (if truthy a then a else b)"

fun toString :: "jsval \<Rightarrow> string" where
  "toString JUndefined = ''undefined''"
| "toString JNull = ''null''"
| "toString (JNum n) = showInt n"
| "toString (JStr s) = s"

subsection \<open>Plain objects used as dictionaries\<close>

text \<open>
  \<open>openPdfs\<close>, \<open>overlays\<close> and \<open>archiveData\<close> are object literals \<open>{}\<close>. Their own
  properties are kept in insertion order. A read \<open>obj[k]\<close> that finds no own property
  continues in \<open>Object.prototype\<close>, whose properties are all truthy. \<open>Object.keys\<close>,
  \<open>Object.values\<close> and \<open>for ... in\<close> list the own keys that are array indices first, in
  ascending numeric order, and then the other keys in insertion order.
\<close>

type_synonym 'v jsobj = "(string \<times> 'v) list"

definition protoKeys :: "string list" where
  "protoKeys = [''constructor'', ''__defineGetter__'', ''__defineSetter__'',
     ''hasOwnProperty'', ''__lookupGetter__'', ''__lookupSetter__'', ''isPrototypeOf'',
     ''propertyIsEnumerable'', ''toString'', ''valueOf'', ''__proto__'', ''toLocaleString'']"

datatype 'v lookup = Own 'v | Inherited | Absent

definition getProp :: "'v jsobj \<Rightarrow> string \<Rightarrow> 'v lookup" where
  "getProp obj k =
     (case map_of obj k of
        Some v \<Rightarrow> Own v
      | None \<Rightarrow> if k \<in> set protoKeys then Inherited else Absent)"

fun truthyProp :: "'v lookup \<Rightarrow> bool" where
  "truthyProp (Own v) = True"
| "truthyProp Inherited = True"
| "truthyProp Absent = False"

definition setProp :: "'v jsobj \<Rightarrow> string \<Rightarrow> 'v \<Rightarrow> 'v jsobj" where
  "setProp obj k v = AList.update k v obj"

definition deleteProp :: "'v jsobj \<Rightarrow> string \<Rightarrow> 'v jsobj" where
  "deleteProp obj k = AList.delete k obj"

definition isArrayIndex :: "string \<Rightarrow> bool" where
  "isArrayIndex k =
     (k \<noteq> [] \<and> list_all isDigit k \<and> (hd k \<noteq> CHR ''0'' \<or> k = ''0'') \<and>
      readNat k < 4294967295)"

definition ownKeys :: "'v jsobj \<Rightarrow> string list" where
  "ownKeys obj =
     (let ks = map fst obj
      in sort_key readNat (filter isArrayIndex ks) @ filter (\<lambda>k. \<not> isArrayIndex k) ks)"

section \<open>The viewer launch URL (pdfjs helper)\<close>

subsection \<open>Percent-encoding\<close>

text \<open>
  \<open>encodeURIComponent\<close> keeps letters, digits and \<open>- _ . ! ~ * ' ( )\<close> and writes every
  other byte as \<open>%XX\<close>. The serializer of \<open>URLSearchParams\<close> keeps letters, digits and
  \<open>* - . _\<close>, writes a space as \<open>+\<close> and every other byte as \<open>%XX\<close>.
\<close>

definition isAlnum :: "char \<Rightarrow> bool" where
  "isAlnum c =
     (let n = (of_char c :: nat)
      in (48 \<le> n \<and> n \<le> 57) \<or> (65 \<le> n \<and> n \<le> 90) \<or> (97 \<le> n \<and> n \<le> 122))"

definition hexDigit :: "nat \<Rightarrow> char" where
  "hexDigit d = (if d < 10 then char_of (48 + d) else char_of (55 + d))"

definition pctByte :: "char \<Rightarrow> string" where
  "pctByte c = [CHR ''%'', hexDigit ((of_char c :: nat) div 16), hexDigit ((of_char c :: nat) mod 16)]"

definition encodeURIComponent :: "string \<Rightarrow> string" where
  "encodeURIComponent s =
     concat (map (\<lambda>c. if isAlnum c \<or> c \<in> set ''-_.!~*'' \<or> c = CHR 0x27 \<or> c \<in> set ''()''
                        then [c] else pctByte c) s)"

definition formEncode :: "string \<Rightarrow> string" where
  "formEncode s =
     concat (map (\<lambda>c. if isAlnum c \<or> c \<in> set ''*-._'' then [c]
                        else if c = CHR '' '' then ''+'' else pctByte c) s)"

text \<open>\<open>params.set(name, value)\<close> and \<open>params.toString()\<close> of \<open>URLSearchParams\<close>.\<close>

definition paramsSet :: "(string \<times> string) list \<Rightarrow> string \<Rightarrow> string \<Rightarrow> (string \<times> string) list" where
  "paramsSet params name v = AList.update name v params"

definition paramsToString :: "(string \<times> string) list \<Rightarrow> string" where
  "paramsToString params = join ''&'' (map (\<lambda>(n, v). formEncode n @ ''='' @ formEncode v) params)"

subsection \<open>buildPdfJsViewerUrl\<close>

record viewerOpts =
  opt_zoom :: jsval
  opt_page :: jsval
  opt_pagemode :: jsval
  opt_view :: jsval
  opt_aimTitle :: jsval
  opt_title :: jsval

definition noOpts :: viewerOpts where
  "noOpts = \<lparr>opt_zoom = JUndefined, opt_page = JUndefined, opt_pagemode = JUndefined,
     opt_view = JUndefined, opt_aimTitle = JUndefined, opt_title = JUndefined\<rparr>"

definition viewerBase :: string where
  "viewerBase = ''pdfjs/web/viewer.html''"

definition buildPdfJsViewerUrl :: "string \<Rightarrow> viewerOpts \<Rightarrow> string" where
  "buildPdfJsViewerUrl fileUrl opts =
     (let zoom = jsOr (opt_zoom opts) (JStr ''page-width'');
          page = jsOr (opt_page opts) (JNum 1);
          pagemode = jsOr (opt_pagemode opts) (JStr ''none'');
          view = jsOr (opt_view opts) JNull;
          aimTitle = jsOr (jsOr (opt_aimTitle opts) (opt_title opts)) JNull;
          params0 = paramsSet [] ''file'' fileUrl;
          params = (if truthy aimTitle then paramsSet params0 ''aimTitle'' (toString aimTitle)
                    else params0);
          hashParts =
            (if truthy page then [''page='' @ encodeURIComponent (toString page)] else []) @
            (if zoom \<noteq> JNull \<and> zoom \<noteq> JUndefined
             then [''zoom='' @ encodeURIComponent (toString zoom)] else []) @
            (if truthy pagemode then [''pagemode='' @ encodeURIComponent (toString pagemode)] else []) @
            (if truthy view then [''view='' @ encodeURIComponent (toString view)] else []);
          hash = (if hashParts \<noteq> [] then ''#'' @ join ''&'' hashParts else [])
      in viewerBase @ ''?'' @ paramsToString params @ hash)"

section \<open>Application state\<close>

subsection \<open>Overlay layers and the Leaflet map\<close>

text \<open>
  Every object stored in \<open>overlays\<close> is either one Leaflet layer or the pair
  \<open>{img, lbl}\<close> built for a hybrid entry. Leaflet itself is an external library: a tile
  layer (\<open>L.tileLayer\<close>, \<open>L.esri.tiledMapLayer\<close>, \<open>L.esri.basemapLayer\<close>) has
  \<open>addTo\<close>, \<open>remove\<close>, \<open>setOpacity\<close>, \<open>setZIndex\<close> and \<open>bringToFront\<close>; the
  placeholder \<open>L.layerGroup()\<close> has \<open>addTo\<close>, \<open>remove\<close>, \<open>removeLayer\<close> and
  \<open>setZIndex\<close>. A layer is identified by a number (its Leaflet stamp).
\<close>

datatype layerKind = TileLayer | LayerGroup

datatype layer = Layer nat layerKind

datatype runtime = Single layer | Paired layer layer

fun layerId :: "layer \<Rightarrow> nat" where
  "layerId (Layer n k) = n"

fun hasSetOpacity :: "layer \<Rightarrow> bool" where
  "hasSetOpacity (Layer n k) = (k = TileLayer)"

fun hasBringToFront :: "layer \<Rightarrow> bool" where
  "hasBringToFront (Layer n k) = (k = TileLayer)"

fun memberLayers :: "runtime \<Rightarrow> layer list" where
  "memberLayers (Single l) = [l]"
| "memberLayers (Paired img lbl) = [img, lbl]"

definition members :: "runtime \<Rightarrow> nat list" where
  "members rt = map layerId (memberLayers rt)"

subsection \<open>Check boxes, tabs, session record\<close>

record checkbox =
  chkId :: string
  dataId :: string
  checked :: bool

text \<open>
  The close button of a tab carries one of two click handlers: the one installed by
  \<open>openPdfInTab\<close>, which calls \<open>closePdfTab(tabKey)\<close>, and the one installed by
  \<open>restoreStateFromSession\<close>.
\<close>

datatype closeHandler = CallsClosePdfTab string | RestoredClose string

record tabEl =
  tabId :: nat
  spanLabel :: string
  active :: bool
  closeBtn :: closeHandler

record pdfEntry =
  tab :: nat
  url :: string
  label :: string
  filename :: "string option"
  aimTitle :: string

record sessionTab =
  st_filename :: string
  st_url :: string
  st_label :: string
  st_aimTitle :: string

record session =
  enabledLayers :: "string list"
  openTabs :: "sessionTab list"

record archiveRow =
  row_filename :: string
  ui_label_2 :: string

text \<open>
  The state the functions below read and write: the global tables of \<open>app.js\<close>, the
  parts of the page they touch (the tab strip \<open>#pdf-tabs\<close>, the \<open>src\<close> of the viewer
  frame \<open>#pdf-viewer\<close>, which is \<open>None\<close> when the page has no such frame, the check boxes
  of \<open>#imagery-toggle\<close>), the layers attached to the map with their opacity and z-index,
  and the \<open>aim_session\<close> item of \<open>sessionStorage\<close>. \<open>storageOk\<close> is false when
  \<open>sessionStorage.setItem\<close> throws. \<open>nextElem\<close> numbers the elements created.
\<close>

record app =
  openPdfs :: "pdfEntry jsobj"
  activePdfKey :: "string option"
  pdfTabs :: "tabEl list"
  pdfViewer :: "string option"
  nextElem :: nat
  checkboxes :: "checkbox list"
  overlays :: "runtime jsobj"
  overlayMeta :: "string jsobj"
  mapLayers :: "nat list"
  layerOpacity :: "nat \<Rightarrow> real option"
  layerZIndex :: "nat \<Rightarrow> int option"
  archiveData :: "archiveRow list jsobj"
  aim_session :: "session option"
  storageOk :: bool

text \<open>
  A function that can end in an uncaught \<open>TypeError\<close> returns \<open>Threw\<close> with the state
  reached when the error was raised.
\<close>

datatype 'a result = Returned 'a | Threw 'a

fun stateOf :: "'a result \<Rightarrow> 'a" where
  "stateOf (Returned s) = s"
| "stateOf (Threw s) = s"

fun andThen :: "'a result \<Rightarrow> ('a \<Rightarrow> 'a result) \<Rightarrow> 'a result" where
  "andThen (Returned s) f = f s"
| "andThen (Threw s) f = Threw s"

section \<open>Overlay registry\<close>

definition toLowerCase :: "string \<Rightarrow> string" where
  "toLowerCase s =
     map (\<lambda>c. if 65 \<le> (of_char c :: nat) \<and> (of_char c :: nat) \<le> 90
                then char_of ((of_char c :: nat) + 32) else c) s"

definition mapAddLayer :: "nat \<Rightarrow> nat list \<Rightarrow> nat list" where
  "mapAddLayer l ls = (if l \<in> set ls then ls else ls @ [l])"

definition mapRemoveLayer :: "nat \<Rightarrow> nat list \<Rightarrow> nat list" where
  "mapRemoveLayer l ls = filter (\<lambda>x. x \<noteq> l) ls"

definition layerBringToFront :: "nat \<Rightarrow> nat list \<Rightarrow> nat list" where
  "layerBringToFront l ls = (if l \<in> set ls then filter (\<lambda>x. x \<noteq> l) ls @ [l] else ls)"

definition Z_IMAGERY :: int where
  "Z_IMAGERY = 200"

definition isVectorStreet :: "string jsobj \<Rightarrow> string \<Rightarrow> bool" where
  "isVectorStreet meta ident =
     (case getProp meta ident of
        Own svc \<Rightarrow> toLowerCase svc = ''vector-street''
      | Inherited \<Rightarrow> False
      | Absent \<Rightarrow> False)"

definition enableLayer :: "string \<Rightarrow> app \<Rightarrow> app" where
  "enableLayer ident s =
     (case getProp (overlays s) ident of
        Absent \<Rightarrow> s
      | Inherited \<Rightarrow> s
      | Own (Paired img lbl) \<Rightarrow>
          s\<lparr>mapLayers := mapAddLayer (layerId lbl) (mapAddLayer (layerId img) (mapLayers s)),
            layerZIndex := (layerZIndex s)(layerId img \<mapsto> Z_IMAGERY)\<rparr>
      | Own (Single obj) \<Rightarrow>
          (let s1 = s\<lparr>mapLayers := mapAddLayer (layerId obj) (mapLayers s)\<rparr>
           in if (ident = ''Street Overlay'' \<or> isVectorStreet (overlayMeta s) ident)
                 \<and> hasBringToFront obj
              then s1\<lparr>mapLayers := layerBringToFront (layerId obj) (mapLayers s1)\<rparr>
              else s1))"

definition removeLayer :: "string \<Rightarrow> app \<Rightarrow> app" where
  "removeLayer ident s =
     (case getProp (overlays s) ident of
        Absent \<Rightarrow> s
      | Inherited \<Rightarrow> s
      | Own (Paired img lbl) \<Rightarrow>
          s\<lparr>mapLayers := mapRemoveLayer (layerId lbl) (mapRemoveLayer (layerId img) (mapLayers s))\<rparr>
      | Own (Single obj) \<Rightarrow> s\<lparr>mapLayers := mapRemoveLayer (layerId obj) (mapLayers s)\<rparr>)"

definition setLayerOpacity :: "string \<Rightarrow> real \<Rightarrow> app \<Rightarrow> app" where
  "setLayerOpacity ident val s =
     (case getProp (overlays s) ident of
        Absent \<Rightarrow> s
      | Inherited \<Rightarrow> s
      | Own (Single obj) \<Rightarrow>
          (if hasSetOpacity obj then s\<lparr>layerOpacity := (layerOpacity s)(layerId obj \<mapsto> val)\<rparr>
           else s)
      | Own (Paired img lbl) \<Rightarrow>
          (if hasSetOpacity img then s\<lparr>layerOpacity := (layerOpacity s)(layerId img \<mapsto> val)\<rparr>
           else if hasSetOpacity lbl then s\<lparr>layerOpacity := (layerOpacity s)(layerId lbl \<mapsto> val)\<rparr>
           else s))"

section \<open>Session persistence: writing\<close>

definition persistedId :: "checkbox \<Rightarrow> string" where
  "persistedId inp =
     (if dataId inp \<noteq> [] then dataId inp
      else if chkId inp = ''chk-street-overlay'' then ''Street Overlay'' else [])"

fun entriesOf :: "'v jsobj \<Rightarrow> string list \<Rightarrow> (string \<times> 'v) list" where
  "entriesOf obj [] = []"
| "entriesOf obj (k # ks) =
     (case map_of obj k of
        Some v \<Rightarrow> (k, v) # entriesOf obj ks
      | None \<Rightarrow> entriesOf obj ks)"

definition persistStateToSession :: "app \<Rightarrow> app" where
  "persistStateToSession s =
     (if storageOk s
      then s\<lparr>aim_session := Some
             \<lparr>enabledLayers =
                map persistedId
                  (filter (\<lambda>inp. persistedId inp \<noteq> [] \<and> checked inp) (checkboxes s)),
              openTabs =
                map (\<lambda>(k, e). \<lparr>st_filename = k, st_url = url e, st_label = label e,
                                 st_aimTitle = aimTitle e\<rparr>)
                  (entriesOf (openPdfs s) (ownKeys (openPdfs s)))\<rparr>\<rparr>
      else s)"

section \<open>PDF tab manager\<close>

definition pdfViewOpts :: "string \<Rightarrow> viewerOpts" where
  "pdfViewOpts t = noOpts\<lparr>opt_zoom := JNum 75, opt_pagemode := JStr ''none'',
     opt_aimTitle := JStr t\<rparr>"

text \<open>\<open>Object.values(openPdfs).forEach(o => o.tab.classList.remove('active'))\<close>\<close>

definition clearActive :: "pdfEntry jsobj \<Rightarrow> tabEl list \<Rightarrow> tabEl list" where
  "clearActive obj els =
     map (\<lambda>el. if tabId el \<in> set (map (\<lambda>(k, e). tab e) obj) then el\<lparr>active := False\<rparr> else el) els"

definition addActive :: "nat \<Rightarrow> tabEl list \<Rightarrow> tabEl list" where
  "addActive i els = map (\<lambda>el. if tabId el = i then el\<lparr>active := True\<rparr> else el) els"

definition activatePdfTab :: "string \<Rightarrow> app \<Rightarrow> app result" where
  "activatePdfTab tabKey s =
     (case getProp (openPdfs s) tabKey of
        Absent \<Rightarrow> Returned s
      | Inherited \<Rightarrow>
          Threw (s\<lparr>activePdfKey := Some tabKey,
                   pdfTabs := clearActive (openPdfs s) (pdfTabs s)\<rparr>)
      | Own e \<Rightarrow>
          (let s1 = s\<lparr>activePdfKey := Some tabKey,
                       pdfTabs := addActive (tab e) (clearActive (openPdfs s) (pdfTabs s))\<rparr>
           in Returned
                (case pdfViewer s1 of
                   None \<Rightarrow> s1
                 | Some old \<Rightarrow>
                     s1\<lparr>pdfViewer := Some (buildPdfJsViewerUrl (url e) (pdfViewOpts (aimTitle e)))\<rparr>)))"

text \<open>
  The duplicate counter of a tab key, as \<open>tabKey.match(/\((\d+)\)$/)?.[1] || ''\<close> reads
  it: the digits of the leftmost \<open>(digits)\<close> that ends the key.
\<close>

definition parenDigits :: "string \<Rightarrow> bool" where
  "parenDigits cs = (takeWhile isDigit cs \<noteq> [] \<and> dropWhile isDigit cs = '')'')"

fun dupCounter :: "string \<Rightarrow> string" where
  "dupCounter [] = []"
| "dupCounter (c # cs) =
     (if c = CHR ''('' \<and> parenDigits cs then takeWhile isDigit cs else dupCounter cs)"

definition suffixed :: "string \<Rightarrow> nat \<Rightarrow> string" where
  "suffixed baseKey n = baseKey @ '' ('' @ showNat n @ '')''"

text \<open>
  The loop of \<open>openPdfInTab\<close> that looks for a free key:
  \<open>while (openPdfs[tabKey]) { tabKey = `${baseKey} (${n})`; n++; }\<close>.
  It ends because the object has finitely many own keys and the candidate keys are
  pairwise different.
\<close>

function whileOpen :: "'v jsobj \<Rightarrow> string \<Rightarrow> string \<Rightarrow> nat \<Rightarrow> string" where
  "whileOpen obj baseKey tabKey n =
     (if truthyProp (getProp obj tabKey) then whileOpen obj baseKey (suffixed baseKey n) (Suc n)
      else tabKey)"
  by pat_completeness auto
termination
proof (relation "measure (\<lambda>(obj, baseKey, tabKey, n).
         (if truthyProp (getProp obj tabKey) then 1 else 0)
         + card {m. n \<le> m \<and> suffixed baseKey m \<in> fst ` set obj})")
  show "wf (measure (\<lambda>(obj :: 'v jsobj, baseKey, tabKey, n).
         (if truthyProp (getProp obj tabKey) then 1 else 0)
         + card {m. n \<le> m \<and> suffixed baseKey m \<in> fst ` set obj}))" by simp
next
  fix obj :: "'v jsobj" and baseKey tabKey :: string and n :: nat
  assume t: "truthyProp (getProp obj tabKey)"
  define A where "A = (\<lambda>k. {m. k \<le> m \<and> suffixed baseKey m \<in> fst ` set obj})"
  have rd: "readNat (showNat k) = k" for k
  proof (induction k rule: showNat.induct)
    case (1 k)
    show ?case
    proof (cases "k < 10")
      case True
      then show ?thesis by (simp add: showNat.simps[of k] readNat_def digitChar_def)
    next
      case False
      then show ?thesis using 1
        by (simp add: showNat.simps[of k] readNat_def digitChar_def)
    qed
  qed
  have inj: "inj (suffixed baseKey)"
  proof (rule injI)
    fix x y assume "suffixed baseKey x = suffixed baseKey y"
    then have "showNat x = showNat y" by (simp add: suffixed_def)
    then show "x = y" by (metis rd)
  qed
  have own: "truthyProp (getProp obj (suffixed baseKey k)) = (suffixed baseKey k \<in> fst ` set obj)"
    for k
  proof -
    have "last (suffixed baseKey k) = CHR '')''" by (simp add: suffixed_def)
    moreover have "\<forall>p \<in> set protoKeys. last p \<noteq> CHR '')''" by (simp add: protoKeys_def)
    ultimately have np: "suffixed baseKey k \<notin> set protoKeys" by metis
    have "(suffixed baseKey k \<in> fst ` set obj) = (map_of obj (suffixed baseKey k) \<noteq> None)"
      by (simp add: dom_map_of_conv_image_fst[symmetric] domIff)
    then show ?thesis using np
      by (cases "map_of obj (suffixed baseKey k)") (simp_all add: getProp_def)
  qed
  have fin: "finite (A k)" for k
  proof -
    have "finite (suffixed baseKey -` (fst ` set obj))"
      using inj by (intro finite_vimageI) simp_all
    moreover have "A k \<subseteq> suffixed baseKey -` (fst ` set obj)" by (auto simp: A_def)
    ultimately show ?thesis by (rule rev_finite_subset)
  qed
  have step: "(if truthyProp (getProp obj (suffixed baseKey n)) then 1 else 0) + card (A (Suc n))
        = card (A n)"
  proof (cases "suffixed baseKey n \<in> fst ` set obj")
    case True
    have "A n = insert n (A (Suc n))"
    proof (rule set_eqI)
      fix m
      have "(n \<le> m) = (m = n \<or> Suc n \<le> m)" by arith
      then show "(m \<in> A n) = (m \<in> insert n (A (Suc n)))"
        using True by (cases "m = n") (simp_all add: A_def)
    qed
    moreover have "n \<notin> A (Suc n)" by (simp add: A_def)
    ultimately have "card (A n) = Suc (card (A (Suc n)))" using fin[of "Suc n"] by simp
    then show ?thesis using True by (simp add: own)
  next
    case False
    have "A n = A (Suc n)"
    proof (rule set_eqI)
      fix m
      have "(n \<le> m) = (m = n \<or> Suc n \<le> m)" by arith
      then show "(m \<in> A n) = (m \<in> A (Suc n))"
        using False by (cases "m = n") (simp_all add: A_def)
    qed
    then show ?thesis using False by (simp add: own)
  qed
  show "((obj, baseKey, suffixed baseKey n, Suc n), (obj, baseKey, tabKey, n))
        \<in> measure (\<lambda>(obj, baseKey, tabKey, n).
         (if truthyProp (getProp obj tabKey) then 1 else 0)
         + card {m. n \<le> m \<and> suffixed baseKey m \<in> fst ` set obj})"
    using t step by (simp add: A_def)
qed

declare whileOpen.simps [simp del]

definition openPdfInTab :: "string \<Rightarrow> string \<Rightarrow> string \<Rightarrow> app \<Rightarrow> app result" where
  "openPdfInTab fname u title s =
     (let baseKey = fname;
          tabKey = whileOpen (openPdfs s) baseKey baseKey 2;
          lbl = (if title \<noteq> [] \<and> trim title \<noteq> [] then trim title else fname);
          displayLabel = (if tabKey = baseKey then lbl
                          else lbl @ '' ('' @ dupCounter tabKey @ '')'');
          el = \<lparr>tabId = nextElem s, spanLabel = displayLabel, active = False,
                closeBtn = CallsClosePdfTab tabKey\<rparr>;
          s1 = s\<lparr>pdfTabs := pdfTabs s @ [el],
                 nextElem := Suc (nextElem s),
                 openPdfs := setProp (openPdfs s) tabKey
                   \<lparr>tab = nextElem s, url = u, label = displayLabel,
                    filename = Some fname, aimTitle = lbl\<rparr>\<rparr>
      in andThen (activatePdfTab tabKey s1) (\<lambda>s2. Returned (persistStateToSession s2)))"

definition removeEl :: "nat \<Rightarrow> tabEl list \<Rightarrow> tabEl list" where
  "removeEl i els = filter (\<lambda>el. tabId el \<noteq> i) els"

definition blankViewer :: "app \<Rightarrow> app" where
  "blankViewer s = s\<lparr>pdfViewer := map_option (\<lambda>old. []) (pdfViewer s)\<rparr>"

definition closePdfTab :: "string \<Rightarrow> app \<Rightarrow> app result" where
  "closePdfTab tabKey s =
     (case getProp (openPdfs s) tabKey of
        Absent \<Rightarrow> Returned s
      | Inherited \<Rightarrow> Threw s
      | Own entry \<Rightarrow>
          (let s1 = s\<lparr>pdfTabs := removeEl (tab entry) (pdfTabs s),
                       openPdfs := deleteProp (openPdfs s) tabKey\<rparr>
           in if activePdfKey s1 = Some tabKey
              then (case ownKeys (openPdfs s1) of
                      k # ks \<Rightarrow>
                        andThen (activatePdfTab k s1) (\<lambda>s2. Returned (persistStateToSession s2))
                    | [] \<Rightarrow>
                        Returned (persistStateToSession (blankViewer (s1\<lparr>activePdfKey := None\<rparr>))))
              else if ownKeys (openPdfs s1) = []
              then Returned (persistStateToSession (blankViewer (s1\<lparr>activePdfKey := None\<rparr>)))
              else Returned (persistStateToSession s1)))"

text \<open>
  The click handler of the close button of a restored tab (lines 1152-1161). It reads
  \<open>pdfViewer.src\<close>, which the browser returns resolved against the address of the page
  (\<open>resolve\<close>), and fails with a \<open>TypeError\<close> when the page has no viewer frame.
\<close>

definition restoredCloseClick :: "(string \<Rightarrow> string) \<Rightarrow> nat \<Rightarrow> string \<Rightarrow> app \<Rightarrow> app result" where
  "restoredCloseClick resolve el key s =
     (let s1 = s\<lparr>pdfTabs := removeEl el (pdfTabs s),
                  openPdfs := deleteProp (openPdfs s) key\<rparr>;
          s2 = persistStateToSession s1
      in case pdfViewer s2 of
           None \<Rightarrow> Threw s2
         | Some src \<Rightarrow>
             if resolve src \<noteq> [] \<and> str_includes (resolve src) key
             then (case ownKeys (openPdfs s2) of
                     [] \<Rightarrow> Returned (s2\<lparr>pdfViewer := Some []\<rparr>)
                   | next # ks \<Rightarrow>
                       if next \<noteq> [] then activatePdfTab next s2
                       else Returned (s2\<lparr>pdfViewer := Some []\<rparr>))
             else Returned s2)"

text \<open>Clicking the close button of a tab element runs the handler installed on it.\<close>

definition clickClose :: "(string \<Rightarrow> string) \<Rightarrow> tabEl \<Rightarrow> app \<Rightarrow> app result" where
  "clickClose resolve el s =
     (case closeBtn el of
        CallsClosePdfTab k \<Rightarrow> closePdfTab k s
      | RestoredClose k \<Rightarrow> restoredCloseClick resolve (tabId el) k s)"

section \<open>Session persistence: reading\<close>

text \<open>
  \<open>String(s || '').replace(/[^a-z0-9_\-]/gi, '_')\<close> (lines 72-74); without the flag \<open>u\<close>
  the class holds the ASCII letters and digits, \<open>_\<close> and \<open>-\<close> only. The replacement works on
  the UTF-16 code units of the string and \<open>cssSafeId\<close> on the bytes of its UTF-8 encoding:
  a character of one byte outside the class, and a character of two or three bytes,
  is one code unit and gives one underscore, written at its first byte; a character of
  four bytes is a surrogate pair and gives two; the continuation bytes give nothing.
\<close>

definition cssSafeId :: "string \<Rightarrow> string" where
  "cssSafeId s =
     concat (map (\<lambda>c. if isAlnum c \<or> c = CHR ''_'' \<or> c = CHR ''-'' then [c]
                       else if (of_char c :: nat) < 128 then ''_''
                       else if (of_char c :: nat) < 192 then []
                       else if (of_char c :: nat) < 240 then ''_''
                       else ''__'') s)"

fun firstIndex :: "('a \<Rightarrow> bool) \<Rightarrow> 'a list \<Rightarrow> nat option" where
  "firstIndex P [] = None"
| "firstIndex P (x # xs) = (if P x then Some 0 else map_option Suc (firstIndex P xs))"

text \<open>
  The \<open>change\<close> listener of an overlay check box (lines 646, 665, 698); the opacity
  slider it also enables or dims is not part of the state.
\<close>

definition changeHandler :: "nat \<Rightarrow> app \<Rightarrow> app" where
  "changeHandler i s =
     (let inp = checkboxes s ! i
      in persistStateToSession
           (if checked inp then enableLayer (dataId inp) s else removeLayer (dataId inp) s))"

definition findCheckbox :: "checkbox list \<Rightarrow> string \<Rightarrow> nat option" where
  "findCheckbox cbs ident =
     (case firstIndex (\<lambda>c. dataId c = ident) cbs of
        Some i \<Rightarrow> Some i
      | None \<Rightarrow>
          (case firstIndex (\<lambda>c. chkId c = ''chk-'' @ cssSafeId ident) cbs of
             Some i \<Rightarrow> Some i
           | None \<Rightarrow>
               if ident = ''Street Overlay''
               then firstIndex (\<lambda>c. chkId c = ''chk-street-overlay'') cbs else None))"

definition restoreLayer :: "app \<Rightarrow> string \<Rightarrow> app" where
  "restoreLayer s ident =
     (case findCheckbox (checkboxes s) ident of
        None \<Rightarrow> s
      | Some i \<Rightarrow>
          if checked (checkboxes s ! i) then s
          else changeHandler i
                 (s\<lparr>checkboxes := (checkboxes s)[i := (checkboxes s ! i)\<lparr>checked := True\<rparr>]\<rparr>))"

text \<open>\<open>String(t.filename || '').replace(/\s*\(\d+\)\s*$/, '')\<close>\<close>

definition matchesDupSuffix :: "string \<Rightarrow> bool" where
  "matchesDupSuffix s =
     (case dropWhile isSpace s of
        [] \<Rightarrow> False
      | c # r \<Rightarrow>
          c = CHR ''('' \<and> takeWhile isDigit r \<noteq> [] \<and>
          (case dropWhile isDigit r of
             [] \<Rightarrow> False
           | d # r2 \<Rightarrow> d = CHR '')'' \<and> list_all isSpace r2))"

fun stripDupSuffix :: "string \<Rightarrow> string" where
  "stripDupSuffix [] = []"
| "stripDupSuffix (c # cs) =
     (if matchesDupSuffix (c # cs) then [] else c # stripDupSuffix cs)"

definition findArchiveRowByFilename :: "archiveRow list jsobj \<Rightarrow> string \<Rightarrow> archiveRow option" where
  "findArchiveRowByFilename archive fname0 =
     (let fname = trim fname0
      in if fname = [] then None
         else List.find (\<lambda>r. trim (row_filename r) = fname)
                (concat (map snd (entriesOf archive (ownKeys archive)))))"

definition restoredTitle :: "archiveRow list jsobj \<Rightarrow> sessionTab \<Rightarrow> string" where
  "restoredTitle archive t =
     (let baseFilename = trim (stripDupSuffix (st_filename t));
          title = (case findArchiveRowByFilename archive baseFilename of
                     Some row \<Rightarrow> trim (ui_label_2 row)
                   | None \<Rightarrow>
                       if st_aimTitle t \<noteq> [] then st_aimTitle t
                       else if st_label t \<noteq> [] then st_label t else st_filename t)
      in if title \<noteq> [] then title else st_filename t)"

definition restoreTab :: "app \<Rightarrow> sessionTab \<Rightarrow> app" where
  "restoreTab s t =
     (if \<not> truthyProp (getProp (openPdfs s) (st_filename t))
      then s\<lparr>pdfTabs := pdfTabs s @
                [\<lparr>tabId = nextElem s, spanLabel = restoredTitle (archiveData s) t,
                  active = False, closeBtn = RestoredClose (st_filename t)\<rparr>],
             nextElem := Suc (nextElem s),
             openPdfs := setProp (openPdfs s) (st_filename t)
               \<lparr>tab = nextElem s, url = st_url t, label = restoredTitle (archiveData s) t,
                filename = None, aimTitle = restoredTitle (archiveData s) t\<rparr>\<rparr>
      else s)"

definition restoreStateFromSession :: "app \<Rightarrow> app" where
  "restoreStateFromSession s =
     (case aim_session s of
        None \<Rightarrow> s
      | Some st \<Rightarrow>
          (let s1 = foldl restoreLayer s (enabledLayers st)
           in case openTabs st of
                [] \<Rightarrow> s1
              | first # rest \<Rightarrow>
                  stateOf (activatePdfTab (st_filename first)
                             (foldl restoreTab s1 (openTabs st)))))"

text \<open>
  The check boxes the page has after the overlay feed is loaded and before anything is
  restored: the two fixed boxes of lines 620-668 (Street Overlay starts checked, OSM
  unchecked), followed by the boxes built from the rows of the feed.
\<close>

definition startupCheckboxes :: "checkbox list \<Rightarrow> checkbox list" where
  "startupCheckboxes feedBoxes =
     \<lparr>chkId = ''chk-street-overlay'', dataId = ''Street Overlay'', checked = True\<rparr> #
     \<lparr>chkId = ''chk-osm'', dataId = ''OSM'', checked = False\<rparr> # feedBoxes"

text \<open>
  A page that has been loaded again, at the point where the overlay loader has built its
  check boxes (line 786): the tab tables are empty, the check boxes are in their startup
  state, the tables built from the feeds are those of \<open>s\<close>, the viewer frame is blank and
  \<open>sessionStorage\<close> holds what \<open>s\<close> holds. \<open>layers0\<close> are the layers the loader has put on
  the map. What the loader does next, and the whole of a reload, follow below.
\<close>

definition reloadPage :: "checkbox list \<Rightarrow> nat list \<Rightarrow> app \<Rightarrow> app" where
  "reloadPage feedBoxes layers0 s =
     s\<lparr>openPdfs := [], activePdfKey := None, pdfTabs := [],
       pdfViewer := map_option (\<lambda>old. []) (pdfViewer s), nextElem := 0,
       checkboxes := startupCheckboxes feedBoxes, mapLayers := layers0\<rparr>"

text \<open>
  A row of the overlay feed, as the post-load rule of the loader reads it (lines 788-799):
  \<open>String(entry.ui_label || '')\<close> and \<open>String(entry.url || '')\<close>. The rule looks at every
  row whose label or address contains \<open>imagery\<close> (lower-casing maps no other character
  to a letter of that word, so the ASCII \<open>toLowerCase\<close> decides the test), finds its check
  box by \<open>data-id\<close> or else by element id, and, when the box is not checked, checks it and
  dispatches \<open>change\<close>: the listener enables the layer and calls
  \<open>persistStateToSession\<close>.
\<close>

record feedRow =
  fr_label :: string
  fr_url :: string

definition isImageryRow :: "feedRow \<Rightarrow> bool" where
  "isImageryRow row =
     (str_includes (toLowerCase (fr_label row)) ''imagery''
      \<or> str_includes (toLowerCase (fr_url row)) ''imagery''
      \<or> str_includes (toLowerCase (fr_url row)) ''imagerylabels'')"

definition findForced :: "checkbox list \<Rightarrow> string \<Rightarrow> nat option" where
  "findForced cbs key =
     (case firstIndex (\<lambda>c. dataId c = key) cbs of
        Some i \<Rightarrow> Some i
      | None \<Rightarrow> firstIndex (\<lambda>c. chkId c = ''chk-'' @ cssSafeId key) cbs)"







text \<open>
  The post-load rule finds nothing to do: every row it looks at has no check box or a
  box that is checked already.
\<close>

definition ruleQuiet :: "checkbox list \<Rightarrow> feedRow list \<Rightarrow> bool" where
  "ruleQuiet cbs rows =
     list_all (\<lambda>row. isImageryRow row \<longrightarrow>
                 (case findForced cbs (fr_label row) of
                    None \<Rightarrow> True
                  | Some i \<Rightarrow> checked (cbs ! i))) rows"

text \<open>The overlay identifiers \<open>persistStateToSession\<close> would record as enabled.\<close>

definition enabledIds :: "app \<Rightarrow> string set" where
  "enabledIds s =
     set (map persistedId (filter (\<lambda>inp. persistedId inp \<noteq> [] \<and> checked inp) (checkboxes s)))"


definition checkForced :: "checkbox list \<Rightarrow> feedRow \<Rightarrow> checkbox list" where
  "checkForced cbs row =
     (if isImageryRow row
      then (case findForced cbs (fr_label row) of
              None \<Rightarrow> cbs
            | Some i \<Rightarrow> cbs[i := (cbs ! i)\<lparr>checked := True\<rparr>])
      else cbs)"


definition activeTabs :: "app \<Rightarrow> tabEl list" where
  "activeTabs s = filter active (pdfTabs s)"

section \<open>Floating window manager\<close>

datatype content = PdfFrame string | Markup string

record fwin =
  winId :: nat
  winKey :: string
  winTitle :: string
  display :: string
  zIndex :: "int option"
  left :: int
  top :: int
  body :: content

record dockBtn =
  btnKey :: string
  btnText :: string
  btnWin :: nat

datatype paneRef = LeftPane | RightPane

datatype dockRef = MapDock | DocDock

text \<open>
  The part of the page the window manager works on: the floating windows of each pane
  in document order, the buttons of each dock and its \<open>display\<close> style. \<open>zIndex\<close> of a
  window is what \<open>parseInt(getComputedStyle(w).zIndex, 10)\<close> yields, \<open>None\<close> when that is
  not a number (\<open>auto\<close>).
\<close>

record page =
  panes :: "paneRef \<Rightarrow> fwin list"
  dockBtns :: "dockRef \<Rightarrow> dockBtn list"
  dockDisplay :: "dockRef \<Rightarrow> string"
  nextWin :: nat

record fwOpts =
  o_key :: string
  o_title :: string
  o_paneEl :: paneRef
  o_dockEl :: dockRef
  o_type :: string
  o_src :: string
  o_html :: string

definition emptyPage :: page where
  "emptyPage = \<lparr>panes = (\<lambda>p. []), dockBtns = (\<lambda>d. []), dockDisplay = (\<lambda>d. []), nextWin = 0\<rparr>"

text \<open>\<open>document.querySelectorAll('.floating-window')\<close>\<close>

definition allWindows :: "page \<Rightarrow> fwin list" where
  "allWindows pg = panes pg LeftPane @ panes pg RightPane"

definition maxZ :: "fwin list \<Rightarrow> int" where
  "maxZ wins =
     foldl (\<lambda>mx w. case zIndex w of Some z \<Rightarrow> if z > mx then z else mx | None \<Rightarrow> mx) 10000 wins"

definition updWin :: "nat \<Rightarrow> (fwin \<Rightarrow> fwin) \<Rightarrow> page \<Rightarrow> page" where
  "updWin w f pg = pg\<lparr>panes := (\<lambda>p. map (\<lambda>x. if winId x = w then f x else x) (panes pg p))\<rparr>"

definition bringToFront :: "nat \<Rightarrow> page \<Rightarrow> page" where
  "bringToFront winEl pg = updWin winEl (\<lambda>x. x\<lparr>zIndex := Some (maxZ (allWindows pg) + 1)\<rparr>) pg"

definition ensureDockVisible :: "dockRef \<Rightarrow> page \<Rightarrow> page" where
  "ensureDockVisible dockEl pg = pg\<lparr>dockDisplay := (dockDisplay pg)(dockEl := ''flex'')\<rparr>"

definition maybeHideDock :: "dockRef \<Rightarrow> page \<Rightarrow> page" where
  "maybeHideDock dockEl pg =
     (if dockBtns pg dockEl = [] then pg\<lparr>dockDisplay := (dockDisplay pg)(dockEl := ''none'')\<rparr>
      else pg)"

text \<open>Removing the first dock button that carries the key, when there is one.\<close>

fun removeBtn :: "string \<Rightarrow> dockBtn list \<Rightarrow> dockBtn list" where
  "removeBtn k [] = []"
| "removeBtn k (b # bs) = (if btnKey b = k then bs else b # removeBtn k bs)"

definition openFloatingWindow :: "fwOpts \<Rightarrow> page \<Rightarrow> nat \<times> page" where
  "openFloatingWindow opts pg =
     (let key = o_key opts; paneEl = o_paneEl opts; dockEl = o_dockEl opts
      in case List.find (\<lambda>w. winKey w = key) (panes pg paneEl) of
           Some existing \<Rightarrow>
             (let pg1 = updWin (winId existing) (\<lambda>x. x\<lparr>display := ''flex''\<rparr>) pg;
                  pg2 = bringToFront (winId existing) pg1
              in case List.find (\<lambda>b. btnKey b = key) (dockBtns pg2 dockEl) of
                   Some b \<Rightarrow>
                     (winId existing,
                      maybeHideDock dockEl
                        (pg2\<lparr>dockBtns := (dockBtns pg2)(dockEl := removeBtn key (dockBtns pg2 dockEl))\<rparr>))
                 | None \<Rightarrow> (winId existing, pg2))
         | None \<Rightarrow>
             (let count = int (length (panes pg paneEl));
                  winEl = \<lparr>winId = nextWin pg, winKey = key, winTitle = o_title opts,
                           display = [], zIndex = None,
                           left = 20 + count * 18, top = 80 + count * 18,
                           body = (if o_type opts = ''pdf'' then PdfFrame (o_src opts)
                                   else Markup (if o_html opts \<noteq> [] then o_html opts
                                                else ''<div class=\"sheet-wrap\">No content.</div>''))\<rparr>;
                  pg1 = pg\<lparr>panes := (panes pg)(paneEl := panes pg paneEl @ [winEl]),
                           nextWin := Suc (nextWin pg)\<rparr>
              in (nextWin pg, bringToFront (nextWin pg) pg1)))"

text \<open>The handlers \<open>openFloatingWindow\<close> installs on a new window (lines 351-374).\<close>

definition closeClick :: "nat \<Rightarrow> string \<Rightarrow> dockRef \<Rightarrow> page \<Rightarrow> page" where
  "closeClick winEl key dockEl pg =
     maybeHideDock dockEl
       (pg\<lparr>dockBtns := (dockBtns pg)(dockEl := removeBtn key (dockBtns pg dockEl)),
           panes := (\<lambda>p. filter (\<lambda>x. winId x \<noteq> winEl) (panes pg p))\<rparr>)"

definition dockBtnClick :: "nat \<Rightarrow> dockBtn \<Rightarrow> dockRef \<Rightarrow> page \<Rightarrow> page" where
  "dockBtnClick winEl btn dockEl pg =
     (let pg1 = bringToFront winEl (updWin winEl (\<lambda>x. x\<lparr>display := ''flex''\<rparr>) pg)
      in maybeHideDock dockEl
           (pg1\<lparr>dockBtns := (dockBtns pg1)(dockEl := remove1 btn (dockBtns pg1 dockEl))\<rparr>))"

definition minimizeClick :: "nat \<Rightarrow> string \<Rightarrow> string \<Rightarrow> dockRef \<Rightarrow> page \<Rightarrow> page" where
  "minimizeClick winEl key title dockEl pg =
     (let pg1 = ensureDockVisible dockEl (updWin winEl (\<lambda>x. x\<lparr>display := ''none''\<rparr>) pg)
      in if List.find (\<lambda>b. btnKey b = key) (dockBtns pg1 dockEl) = None
         then pg1\<lparr>dockBtns := (dockBtns pg1)(dockEl := dockBtns pg1 dockEl @
                    [\<lparr>btnKey = key, btnText = title, btnWin = winEl\<rparr>])\<rparr>
         else pg1)"

section \<open>Example states\<close>

text \<open>
  The page after its feeds are loaded, for a feed with one hybrid overlay and an empty
  archive: OSM and the street overlay are on the map, their boxes in the startup state.
\<close>

definition demoApp :: app where
  "demoApp = \<lparr>openPdfs = [], activePdfKey = None, pdfTabs = [], pdfViewer = Some [], nextElem = 0,
     checkboxes = startupCheckboxes [\<lparr>chkId = ''chk-Hybrid'', dataId = ''Hybrid'', checked = False\<rparr>],
     overlays = [(''OSM'', Single (Layer 0 TileLayer)),
                 (''Hybrid'', Paired (Layer 2 TileLayer) (Layer 3 TileLayer)),
                 (''Street Overlay'', Single (Layer 1 TileLayer))],
     overlayMeta = [(''Hybrid'', ''hybrid'')], mapLayers = [0, 1],
     layerOpacity = Map.empty, layerZIndex = Map.empty, archiveData = [], aim_session = None,
     storageOk = True\<rparr>"

text \<open>
  The same page after \<open>openPdfInTab('a.pdf', '/static/pdfs/1920s/a.pdf', 'Report A')\<close>,
  and after the same call once more.
\<close>

definition demoOneTab :: app where
  "demoOneTab = demoApp
     \<lparr>openPdfs := [(''a.pdf'', \<lparr>tab = 0, url = ''/static/pdfs/1920s/a.pdf'', label = ''Report A'',
                        filename = Some ''a.pdf'', aimTitle = ''Report A''\<rparr>)],
      activePdfKey := Some ''a.pdf'',
      pdfTabs := [\<lparr>tabId = 0, spanLabel = ''Report A'', active = True,
                   closeBtn = CallsClosePdfTab ''a.pdf''\<rparr>],
      pdfViewer := Some (buildPdfJsViewerUrl ''/static/pdfs/1920s/a.pdf'' (pdfViewOpts ''Report A'')),
      nextElem := 1,
      aim_session := Some
        \<lparr>enabledLayers = [''Street Overlay''],
         openTabs = [\<lparr>st_filename = ''a.pdf'', st_url = ''/static/pdfs/1920s/a.pdf'',
                      st_label = ''Report A'', st_aimTitle = ''Report A''\<rparr>]\<rparr>\<rparr>"

definition demoTwoTabs :: app where
  "demoTwoTabs = demoApp
     \<lparr>openPdfs := [(''a.pdf'', \<lparr>tab = 0, url = ''/static/pdfs/1920s/a.pdf'', label = ''Report A'',
                        filename = Some ''a.pdf'', aimTitle = ''Report A''\<rparr>),
                   (''a.pdf (2)'', \<lparr>tab = 1, url = ''/static/pdfs/1920s/a.pdf'',
                        label = ''Report A (2)'', filename = Some ''a.pdf'',
                        aimTitle = ''Report A''\<rparr>)],
      activePdfKey := Some ''a.pdf (2)'',
      pdfTabs := [\<lparr>tabId = 0, spanLabel = ''Report A'', active = False,
                   closeBtn = CallsClosePdfTab ''a.pdf''\<rparr>,
                  \<lparr>tabId = 1, spanLabel = ''Report A (2)'', active = True,
                   closeBtn = CallsClosePdfTab ''a.pdf (2)''\<rparr>],
      pdfViewer := Some (buildPdfJsViewerUrl ''/static/pdfs/1920s/a.pdf'' (pdfViewOpts ''Report A'')),
      nextElem := 2,
      aim_session := Some
        \<lparr>enabledLayers = [''Street Overlay''],
         openTabs = [\<lparr>st_filename = ''a.pdf'', st_url = ''/static/pdfs/1920s/a.pdf'',
                      st_label = ''Report A'', st_aimTitle = ''Report A''\<rparr>,
                     \<lparr>st_filename = ''a.pdf (2)'', st_url = ''/static/pdfs/1920s/a.pdf'',
                      st_label = ''Report A (2)'', st_aimTitle = ''Report A''\<rparr>]\<rparr>\<rparr>"

text \<open>
  The numeric z-indices of the floating windows of the page. A window is \<open>raised\<close> once
  \<open>bringToFront\<close> has given it a z-index, a number above the floor 10000 the search
  starts from. Between two calls of the window manager every window of the page is
  raised (\<open>raisedAll\<close>); inside \<open>openFloatingWindow\<close>, at the call of \<open>bringToFront\<close>
  for a window just created (line 384), the new window is on the page and has no
  z-index yet.
\<close>

definition zValues :: "page \<Rightarrow> int list" where
  "zValues pg = concat (map (\<lambda>w. case zIndex w of Some z \<Rightarrow> [z] | None \<Rightarrow> []) (allWindows pg))"

definition raised :: "fwin \<Rightarrow> bool" where
  "raised w = (case zIndex w of Some z \<Rightarrow> 10000 < z | None \<Rightarrow> False)"

definition raisedAll :: "page \<Rightarrow> bool" where
  "raisedAll pg = list_all raised (allWindows pg)"

text \<open>
  Example pages: the metadata window of 1924 opened in the map pane and the collection
  provenance window opened in the document pane; then the first of them minimized.
\<close>

definition metaOpts :: fwOpts where
  "metaOpts = \<lparr>o_key = ''mosaic-meta-1924'', o_title = ''Mosaic Metadata (1924)'',
     o_paneEl = LeftPane, o_dockEl = MapDock, o_type = ''html'', o_src = [],
     o_html = ''<em>Loading metadata</em>''\<rparr>"

definition provOpts :: fwOpts where
  "provOpts = \<lparr>o_key = ''archive-collection-provenance'',
     o_title = ''Engineering Reports Collection Provenance'',
     o_paneEl = RightPane, o_dockEl = DocDock, o_type = ''pdf'',
     o_src = ''pdfjs/web/viewer.html?file=prov.pdf#page=1&zoom=75&pagemode=none'', o_html = []\<rparr>"

definition twoWindows :: page where
  "twoWindows = snd (openFloatingWindow provOpts (snd (openFloatingWindow metaOpts emptyPage)))"

text \<open>
  The page inside \<open>openFloatingWindow\<close> at the moment it raises a window it has just
  created (line 384): the window is appended to its pane and has no z-index yet. The two
  pages on which the calls above raise their windows.
\<close>

definition appendedPage :: "fwOpts \<Rightarrow> page \<Rightarrow> page" where
  "appendedPage opts pg =
     pg\<lparr>panes := (panes pg)(o_paneEl opts := panes pg (o_paneEl opts) @
             [\<lparr>winId = nextWin pg, winKey = o_key opts, winTitle = o_title opts,
               display = [], zIndex = None,
               left = 20 + int (length (panes pg (o_paneEl opts))) * 18,
               top = 80 + int (length (panes pg (o_paneEl opts))) * 18,
               body = (if o_type opts = ''pdf'' then PdfFrame (o_src opts)
                       else Markup (if o_html opts \<noteq> [] then o_html opts
                                    else ''<div class=\"sheet-wrap\">No content.</div>''))\<rparr>]),
        nextWin := Suc (nextWin pg)\<rparr>"

definition metaAppended :: page where
  "metaAppended = appendedPage metaOpts emptyPage"

definition provAppended :: page where
  "provAppended = appendedPage provOpts (snd (openFloatingWindow metaOpts emptyPage))"

definition minimizedMeta :: page where
  "minimizedMeta = minimizeClick 0 ''mosaic-meta-1924'' ''Mosaic Metadata (1924)'' MapDock twoWindows"

text \<open>
  The shape of the tab tables that the operations of the tab manager keep: the keys of
  \<open>openPdfs\<close> are pairwise different and none of them is an inherited name, every
  entry has a tab element of its own in the strip, the strip holds no other element,
  and the element numbers in use are below the next one to be given out.
\<close>

definition entryTabs :: "pdfEntry jsobj \<Rightarrow> nat list" where
  "entryTabs obj = map (\<lambda>(k, e). tab e) obj"

definition tabsWf :: "app \<Rightarrow> bool" where
  "tabsWf s =
     (distinct (map fst (openPdfs s)) \<and> list_all (\<lambda>k. k \<notin> set protoKeys) (map fst (openPdfs s))
      \<and> distinct (map tabId (pdfTabs s)) \<and> distinct (entryTabs (openPdfs s))
      \<and> set (map tabId (pdfTabs s)) = set (entryTabs (openPdfs s))
      \<and> list_all (\<lambda>el. tabId el < nextElem s) (pdfTabs s))"

text \<open>
  What \<open>restoreStateFromSession\<close> registers for persisted tabs whose keys are free:
  one entry and one tab element for each, numbered from \<open>n\<close> on.
\<close>

fun restoredEntries :: "archiveRow list jsobj \<Rightarrow> nat \<Rightarrow> sessionTab list \<Rightarrow> pdfEntry jsobj" where
  "restoredEntries ar n [] = []"
| "restoredEntries ar n (t # ts) =
     (st_filename t, \<lparr>tab = n, url = st_url t, label = restoredTitle ar t, filename = None,
                      aimTitle = restoredTitle ar t\<rparr>) # restoredEntries ar (Suc n) ts"

fun restoredEls :: "archiveRow list jsobj \<Rightarrow> nat \<Rightarrow> sessionTab list \<Rightarrow> tabEl list" where
  "restoredEls ar n [] = []"
| "restoredEls ar n (t # ts) =
     \<lparr>tabId = n, spanLabel = restoredTitle ar t, active = False,
      closeBtn = RestoredClose (st_filename t)\<rparr> # restoredEls ar (Suc n) ts"

text \<open>
  The example page after the user has unticked the street overlay, and the page with
  one tab after a reload and the restore that follows it.
\<close>

definition demoStreetOff :: app where
  "demoStreetOff = demoApp
     \<lparr>checkboxes := [\<lparr>chkId = ''chk-street-overlay'', dataId = ''Street Overlay'', checked = False\<rparr>,
                     \<lparr>chkId = ''chk-osm'', dataId = ''OSM'', checked = False\<rparr>,
                     \<lparr>chkId = ''chk-Hybrid'', dataId = ''Hybrid'', checked = False\<rparr>],
      mapLayers := [0],
      aim_session := Some \<lparr>enabledLayers = [], openTabs = []\<rparr>\<rparr>"

definition hybridBox :: checkbox where
  "hybridBox = \<lparr>chkId = ''chk-Hybrid'', dataId = ''Hybrid'', checked = False\<rparr>"

definition demoRestored :: app where
  "demoRestored = restoreStateFromSession (reloadPage [hybridBox] [0, 1] demoOneTab)"

text \<open>
  A session record with two tabs, the key of the first holding a space, on a page served
  from \<open>https://example.org/aim/\<close>; and the page after the reload and the restore.
\<close>

definition demoSpacedSaved :: app where
  "demoSpacedSaved = demoApp
     \<lparr>aim_session := Some
        \<lparr>enabledLayers = [''Street Overlay''],
         openTabs = [\<lparr>st_filename = ''Annual Report.pdf'',
                      st_url = ''/static/pdfs/1920s/Annual Report.pdf'',
                      st_label = ''Annual Report'', st_aimTitle = ''Annual Report''\<rparr>,
                     \<lparr>st_filename = ''b.pdf'', st_url = ''/static/pdfs/1920s/b.pdf'',
                      st_label = ''Report B'', st_aimTitle = ''Report B''\<rparr>]\<rparr>\<rparr>"

definition demoSpaced :: app where
  "demoSpaced = restoreStateFromSession (reloadPage [hybridBox] [0, 1] demoSpacedSaved)"

definition examplePage :: "string \<Rightarrow> string" where
  "examplePage src = (if src = [] then [] else ''https://example.org/aim/'' @ src)"

text \<open>
  Restore read as a replay of what the user did: the overlays are ticked as the code ticks
  them, then \<open>openPdfInTab\<close> is called for every persisted tab with its file name,
  address and title, in the persisted order, and the first tab is activated.
  \<open>replayedTitle\<close> is the title \<open>openPdfInTab\<close> derives from these arguments.
\<close>

definition replayedTitle :: "sessionTab \<Rightarrow> string" where
  "replayedTitle t =
     (if st_aimTitle t \<noteq> [] \<and> trim (st_aimTitle t) \<noteq> [] then trim (st_aimTitle t)
      else st_filename t)"

fun replayTabs :: "sessionTab list \<Rightarrow> app \<Rightarrow> app result" where
  "replayTabs [] s = Returned s"
| "replayTabs (t # ts) s =
     andThen (openPdfInTab (st_filename t) (st_url t) (st_aimTitle t) s) (replayTabs ts)"

definition restoreByReplay :: "app \<Rightarrow> app result" where
  "restoreByReplay s =
     (case aim_session s of
        None \<Rightarrow> Returned s
      | Some st \<Rightarrow>
          (let s1 = foldl restoreLayer s (enabledLayers st)
           in case openTabs st of
                [] \<Rightarrow> Returned s1
              | first # rest \<Rightarrow>
                  andThen (replayTabs (openTabs st) s1) (activatePdfTab (st_filename first))))"

fun replayedEntries :: "nat \<Rightarrow> sessionTab list \<Rightarrow> pdfEntry jsobj" where
  "replayedEntries n [] = []"
| "replayedEntries n (t # ts) =
     (st_filename t, \<lparr>tab = n, url = st_url t, label = replayedTitle t,
                      filename = Some (st_filename t), aimTitle = replayedTitle t\<rparr>) #
     replayedEntries (Suc n) ts"

text \<open>
  The record the page with two tabs has persisted, and the page with one tab after a
  reload and a replay of the persisted record.
\<close>

definition demoTwoSaved :: session where
  "demoTwoSaved =
     \<lparr>enabledLayers = [''Street Overlay''],
      openTabs = [\<lparr>st_filename = ''a.pdf'', st_url = ''/static/pdfs/1920s/a.pdf'',
                   st_label = ''Report A'', st_aimTitle = ''Report A''\<rparr>,
                  \<lparr>st_filename = ''a.pdf (2)'', st_url = ''/static/pdfs/1920s/a.pdf'',
                   st_label = ''Report A (2)'', st_aimTitle = ''Report A''\<rparr>]\<rparr>"

definition demoReplayed :: app where
  "demoReplayed = stateOf (restoreByReplay (reloadPage [hybridBox] [0, 1] demoOneTab))"

text \<open>
  The page with two tabs after the user has ticked the hybrid overlay, the example page
  after the user has ticked the OSM overlay, and two overlay feeds for the example page,
  each with the one row of the hybrid overlay: the address of the first does not
  contain \<open>imagery\<close>, that of the second does.
\<close>

definition demoHybridOn :: app where
  "demoHybridOn = demoTwoTabs
     \<lparr>checkboxes := [\<lparr>chkId = ''chk-street-overlay'', dataId = ''Street Overlay'', checked = True\<rparr>,
                     \<lparr>chkId = ''chk-osm'', dataId = ''OSM'', checked = False\<rparr>,
                     \<lparr>chkId = ''chk-Hybrid'', dataId = ''Hybrid'', checked = True\<rparr>],
      mapLayers := [0, 1, 2, 3],
      layerZIndex := [2 \<mapsto> 200],
      aim_session := Some
        \<lparr>enabledLayers = [''Street Overlay'', ''Hybrid''],
         openTabs = [\<lparr>st_filename = ''a.pdf'', st_url = ''/static/pdfs/1920s/a.pdf'',
                      st_label = ''Report A'', st_aimTitle = ''Report A''\<rparr>,
                     \<lparr>st_filename = ''a.pdf (2)'', st_url = ''/static/pdfs/1920s/a.pdf'',
                      st_label = ''Report A (2)'', st_aimTitle = ''Report A''\<rparr>]\<rparr>\<rparr>"

definition demoOsmOn :: app where
  "demoOsmOn = demoApp
     \<lparr>checkboxes := [\<lparr>chkId = ''chk-street-overlay'', dataId = ''Street Overlay'', checked = True\<rparr>,
                     \<lparr>chkId = ''chk-osm'', dataId = ''OSM'', checked = True\<rparr>,
                     \<lparr>chkId = ''chk-Hybrid'', dataId = ''Hybrid'', checked = False\<rparr>],
      aim_session := Some \<lparr>enabledLayers = [''Street Overlay'', ''OSM''], openTabs = []\<rparr>\<rparr>"



section \<open>Facts about objects\<close>

lemma own_key_iff: "(k \<in> fst ` set obj) = (map_of obj k \<noteq> None)"
  by (simp add: dom_map_of_conv_image_fst[symmetric] domIff)

lemma getProp_Absent_iff:
  "(getProp obj k = Absent) = (k \<notin> fst ` set obj \<and> k \<notin> set protoKeys)"
  using own_key_iff[of k obj] by (cases "map_of obj k") (simp_all add: getProp_def)

lemma getProp_Own_iff: "(getProp obj k = Own v) = (map_of obj k = Some v)"
  by (cases "map_of obj k") (simp_all add: getProp_def)

lemma truthy_getProp:
  "truthyProp (getProp obj k) = (k \<in> fst ` set obj \<or> k \<in> set protoKeys)"
  using getProp_Absent_iff[of obj k] by (cases "getProp obj k") simp_all

lemma showNat_small: "showNat 2 = ''2''" "showNat 3 = ''3''"
  by (simp_all add: showNat.simps digitChar_def char_of_eq_iff)

lemma suffixed_small: "suffixed b 2 = b @ '' (2)''" "suffixed b 3 = b @ '' (3)''"
  by (simp_all add: suffixed_def showNat_small)

lemmas run_defs = openPdfInTab_def whileOpen.simps activatePdfTab_def
  getProp_def protoKeys_def setProp_def deleteProp_def persistStateToSession_def Let_def
  clearActive_def addActive_def trim_def isSpace_def startupCheckboxes_def persistedId_def
  ownKeys_def isArrayIndex_def isDigit_def activeTabs_def suffixed_small parenDigits_def

lemma demoOneTab_reached:
  "openPdfInTab ''a.pdf'' ''/static/pdfs/1920s/a.pdf'' ''Report A'' demoApp = Returned demoOneTab"
  by (simp add: demoOneTab_def demoApp_def run_defs)

lemma demoTwoTabs_reached:
  "openPdfInTab ''a.pdf'' ''/static/pdfs/1920s/a.pdf'' ''Report A'' demoOneTab = Returned demoTwoTabs"
  by (simp add: demoTwoTabs_def demoOneTab_def demoApp_def run_defs)

lemmas demo_defs = demoApp_def demoOneTab_def demoTwoTabs_def run_defs

section \<open>The overlay registry\<close>

lemma set_mapAddLayer: "set (mapAddLayer l ls) = insert l (set ls)"
  by (auto simp: mapAddLayer_def)

lemma set_mapRemoveLayer: "set (mapRemoveLayer l ls) = set ls - {l}"
  by (auto simp: mapRemoveLayer_def)

lemma set_layerBringToFront: "set (layerBringToFront l ls) = set ls"
  by (auto simp: layerBringToFront_def)

lemma overlays_enableLayer: "overlays (enableLayer ident s) = overlays s"
  by (simp add: enableLayer_def Let_def split: lookup.splits runtime.splits)

lemma mapLayers_enableLayer:
  "getProp (overlays s) ident = Own rt \<Longrightarrow>
   set (mapLayers (enableLayer ident s)) = set (mapLayers s) \<union> set (members rt)"
  by (cases rt)
     (auto simp: enableLayer_def Let_def set_mapAddLayer set_layerBringToFront members_def)

lemma mapLayers_removeLayer:
  "getProp (overlays s) ident = Own rt \<Longrightarrow>
   set (mapLayers (removeLayer ident s)) = set (mapLayers s) - set (members rt)"
  by (cases rt) (auto simp: removeLayer_def set_mapRemoveLayer members_def)

text \<open>
  Claim C6. For a registered overlay identifier, \<open>enableLayer\<close> puts every member layer
  of its runtime on the map, and \<open>removeLayer\<close> after it leaves none of them attached:
  the single layer, or both the imagery and the label layer of a pair. The layers of
  other overlays stay as they were before the two calls.
\<close>

theorem enable_then_remove_leaves_no_layer:
  assumes "getProp (overlays s) ident = Own rt"
  shows "set (members rt) \<subseteq> set (mapLayers (enableLayer ident s))
    \<and> set (members rt) \<inter> set (mapLayers (removeLayer ident (enableLayer ident s))) = {}
    \<and> set (mapLayers (removeLayer ident (enableLayer ident s))) = set (mapLayers s) - set (members rt)"
proof -
  have reg: "getProp (overlays (enableLayer ident s)) ident = Own rt"
    using assms by (simp add: overlays_enableLayer)
  have "set (members rt) \<subseteq> set (mapLayers (enableLayer ident s))"
    using mapLayers_enableLayer[OF assms] by simp
  moreover have "set (members rt) \<inter> set (mapLayers (removeLayer ident (enableLayer ident s))) = {}"
    using mapLayers_removeLayer[OF reg] by auto
  moreover have "set (mapLayers (removeLayer ident (enableLayer ident s)))
      = set (mapLayers s) - set (members rt)"
    using mapLayers_removeLayer[OF reg] mapLayers_enableLayer[OF assms] by auto
  ultimately show ?thesis by simp
qed

theorem enable_then_remove_witness:
  "getProp (overlays demoApp) ''Hybrid'' = Own (Paired (Layer 2 TileLayer) (Layer 3 TileLayer))
   \<and> mapLayers (enableLayer ''Hybrid'' demoApp) = [0, 1, 2, 3]
   \<and> set (members (Paired (Layer 2 TileLayer) (Layer 3 TileLayer)))
       \<inter> set (mapLayers (removeLayer ''Hybrid'' (enableLayer ''Hybrid'' demoApp))) = {}"
proof -
  have reg: "getProp (overlays demoApp) ''Hybrid'' = Own (Paired (Layer 2 TileLayer) (Layer 3 TileLayer))"
    by (simp add: demoApp_def getProp_def)
  have "mapLayers (enableLayer ''Hybrid'' demoApp) = [0, 1, 2, 3]"
    by (simp add: enableLayer_def demoApp_def getProp_def mapAddLayer_def)
  then show ?thesis
    using reg enable_then_remove_leaves_no_layer[OF reg] by (simp add: members_def)
qed

text \<open>
  Claim C7, as the code has it. \<open>setLayerOpacity\<close> is an \<open>if / else if\<close> chain: the
  value goes to the first of the runtime object itself, its imagery member and its
  label member that has \<open>setOpacity\<close>, and to nothing else. For a single layer that is
  the layer when it has the control. For a pair whose members both have it, only the
  imagery member receives the value and the label member keeps its opacity.
\<close>

theorem setLayerOpacity_first_member:
  assumes "getProp (overlays s) ident = Own rt"
  shows "setLayerOpacity ident v s =
     (case filter hasSetOpacity (memberLayers rt) of
        [] \<Rightarrow> s
      | l # ls \<Rightarrow> s\<lparr>layerOpacity := (layerOpacity s)(layerId l \<mapsto> v)\<rparr>)"
  using assms by (cases rt) (simp_all add: setLayerOpacity_def)

theorem setLayerOpacity_first_member_witness:
  "getProp (overlays demoApp) ''Hybrid'' = Own (Paired (Layer 2 TileLayer) (Layer 3 TileLayer))
   \<and> layerOpacity (setLayerOpacity ''Hybrid'' (1/2) demoApp) 2 = Some (1/2)
   \<and> layerOpacity (setLayerOpacity ''Hybrid'' (1/2) demoApp) 3 = layerOpacity demoApp 3"
proof -
  have reg: "getProp (overlays demoApp) ''Hybrid'' = Own (Paired (Layer 2 TileLayer) (Layer 3 TileLayer))"
    by (simp add: demoApp_def getProp_def)
  show ?thesis
    using reg setLayerOpacity_first_member[OF reg, of "1/2"] by simp
qed

text \<open>
  The claim as the spec states it fails on a hybrid overlay: both members are tile
  layers with an opacity control, and the label layer does not receive the value.
\<close>

theorem setLayerOpacity_pair_counterexample:
  "getProp (overlays demoApp) ''Hybrid'' = Own (Paired (Layer 2 TileLayer) (Layer 3 TileLayer))
   \<and> hasSetOpacity (Layer 2 TileLayer) \<and> hasSetOpacity (Layer 3 TileLayer)
   \<and> layerOpacity (setLayerOpacity ''Hybrid'' (1/2) demoApp) 3 \<noteq> Some (1/2)"
  by (simp add: demoApp_def getProp_def setLayerOpacity_def)

section \<open>Activating a tab\<close>

text \<open>
  The guard \<open>if (!openPdfs[tabKey]) return\<close> ends \<open>activatePdfTab\<close> at once, leaving
  the whole state as it was (the active key, the marking of every tab, the source of
  the viewer), when \<open>openPdfs[tabKey]\<close> finds nothing: the key is no own key of
  \<open>openPdfs\<close> and no name of a property that every object inherits.
\<close>

lemma activatePdfTab_unknown_key:
  "tabKey \<notin> fst ` set (openPdfs s) \<Longrightarrow> tabKey \<notin> set protoKeys \<Longrightarrow>
   activatePdfTab tabKey s = Returned s"
  using getProp_Absent_iff[of "openPdfs s" tabKey] by (simp add: activatePdfTab_def)

lemma activatePdfTab_unknown_key_example:
  "''b.pdf'' \<notin> fst ` set (openPdfs demoOneTab) \<and> ''b.pdf'' \<notin> set protoKeys
   \<and> activatePdfTab ''b.pdf'' demoOneTab = Returned demoOneTab"
proof -
  have a: "''b.pdf'' \<notin> fst ` set (openPdfs demoOneTab)" by (simp add: demo_defs)
  have b: "''b.pdf'' \<notin> set protoKeys" by (simp add: protoKeys_def)
  show ?thesis using a b activatePdfTab_unknown_key[OF a b] by simp
qed



section \<open>The floating window manager\<close>

lemma foldl_z_ge: "a \<le> foldl (\<lambda>mx w. case zIndex w of Some z \<Rightarrow> if z > mx then z else mx | None \<Rightarrow> mx) a ws"
proof (induction ws arbitrary: a)
  case Nil
  show ?case by simp
next
  case (Cons w ws)
  show ?case
  proof (cases "zIndex w")
    case None
    then show ?thesis using Cons[of a] by simp
  next
    case (Some z)
    then show ?thesis using Cons[of z] Cons[of a] by (cases "z > a") auto
  qed
qed

lemma foldl_z_upper:
  "w \<in> set ws \<Longrightarrow> zIndex w = Some z \<Longrightarrow>
   z \<le> foldl (\<lambda>mx w. case zIndex w of Some z \<Rightarrow> if z > mx then z else mx | None \<Rightarrow> mx) a ws"
proof (induction ws arbitrary: a)
  case Nil
  then show ?case by simp
next
  case (Cons x ws)
  show ?case
  proof (cases "w = x")
    case True
    then show ?thesis using Cons.prems(2) foldl_z_ge[of "if z > a then z else a" ws]
      by (auto split: if_splits)
  next
    case False
    then show ?thesis using Cons by simp
  qed
qed

lemma foldl_z_attained:
  "foldl (\<lambda>mx w. case zIndex w of Some z \<Rightarrow> if z > mx then z else mx | None \<Rightarrow> mx) a ws = a \<or>
   (\<exists>w \<in> set ws. zIndex w = Some (foldl (\<lambda>mx w. case zIndex w of Some z \<Rightarrow> if z > mx then z else mx | None \<Rightarrow> mx) a ws))"
proof (induction ws arbitrary: a)
  case Nil
  show ?case by simp
next
  case (Cons x ws)
  show ?case
  proof (cases "zIndex x")
    case None
    then show ?thesis using Cons[of a] by auto
  next
    case (Some z)
    show ?thesis
    proof (cases "z > a")
      case True
      then show ?thesis using Some Cons[of z] by auto
    next
      case False
      then show ?thesis using Some Cons[of a] by auto
    qed
  qed
qed

lemma maxZ_ge_base: "10000 \<le> maxZ ws"
  unfolding maxZ_def by (rule foldl_z_ge)

lemma maxZ_upper: "w \<in> set ws \<Longrightarrow> zIndex w = Some z \<Longrightarrow> z \<le> maxZ ws"
  unfolding maxZ_def by (rule foldl_z_upper)

lemma maxZ_attained: "maxZ ws = 10000 \<or> (\<exists>w \<in> set ws. zIndex w = Some (maxZ ws))"
  unfolding maxZ_def by (rule foldl_z_attained)

lemma set_zValues: "set (zValues pg) = {z. \<exists>w \<in> set (allWindows pg). zIndex w = Some z}"
  by (auto simp: zValues_def split: option.splits)

lemma maxZ_is_Max:
  assumes "raisedAll pg" and "allWindows pg \<noteq> []"
  shows "maxZ (allWindows pg) = Max (set (zValues pg))"
proof -
  obtain w where w: "w \<in> set (allWindows pg)" using assms(2) by (cases "allWindows pg") auto
  then obtain z where z: "zIndex w = Some z" "10000 < z"
    using assms(1) by (auto simp: raisedAll_def raised_def list_all_iff split: option.splits)
  have "z \<le> maxZ (allWindows pg)" using w z(1) by (rule maxZ_upper)
  then have "maxZ (allWindows pg) \<noteq> 10000" using z(2) by simp
  then have mem: "maxZ (allWindows pg) \<in> set (zValues pg)"
    using maxZ_attained[of "allWindows pg"] by (auto simp: set_zValues)
  have "\<And>y. y \<in> set (zValues pg) \<Longrightarrow> y \<le> maxZ (allWindows pg)"
    by (auto simp: set_zValues intro: maxZ_upper)
  then show ?thesis using mem by (intro Max_eqI[symmetric]) simp_all
qed

lemma allWindows_updWin:
  "allWindows (updWin i f pg) = map (\<lambda>x. if winId x = i then f x else x) (allWindows pg)"
  by (simp add: allWindows_def updWin_def)

lemma maxZ_cong: "map zIndex ws = map zIndex vs \<Longrightarrow> maxZ ws = maxZ vs"
proof -
  have "foldl (\<lambda>mx w. case zIndex w of Some z \<Rightarrow> if z > mx then z else mx | None \<Rightarrow> mx) a ws
        = foldl (\<lambda>mx z. case z of Some z \<Rightarrow> if z > mx then z else mx | None \<Rightarrow> mx) a (map zIndex ws)"
    for a and ws :: "fwin list"
    by (induction ws arbitrary: a) simp_all
  then show "map zIndex ws = map zIndex vs \<Longrightarrow> maxZ ws = maxZ vs"
    by (simp add: maxZ_def)
qed

lemma maxZ_display:
  "maxZ (allWindows (updWin i (\<lambda>x. x\<lparr>display := d\<rparr>) pg)) = maxZ (allWindows pg)"
  by (rule maxZ_cong) (simp add: allWindows_updWin)

lemma find_key_mem:
  "List.find (\<lambda>w. winKey w = k) ws = Some e \<Longrightarrow> e \<in> set ws \<and> winKey e = k"
  by (induction ws) (auto split: if_splits)

lemma find_None_key: "List.find (\<lambda>w. winKey w = k) ws = None \<Longrightarrow> k \<notin> set (map winKey ws)"
  by (induction ws) (auto split: if_splits)

lemma removeBtn_absent: "List.find (\<lambda>b. btnKey b = k) bs = None \<Longrightarrow> removeBtn k bs = bs"
  by (induction bs) (auto split: if_splits)

lemma panes_updWin: "panes (updWin i f pg) q = map (\<lambda>x. if winId x = i then f x else x) (panes pg q)"
  by (simp add: updWin_def)

lemma dockBtns_updWin: "dockBtns (updWin i f pg) = dockBtns pg"
  by (simp add: updWin_def)

lemma openFloatingWindow_existing_eq:
  assumes "List.find (\<lambda>w. winKey w = o_key opts) (panes pg (o_paneEl opts)) = Some existing"
  shows "openFloatingWindow opts pg =
     (winId existing,
      (let pg2 = bringToFront (winId existing)
                   (updWin (winId existing) (\<lambda>x. x\<lparr>display := ''flex''\<rparr>) pg)
       in case List.find (\<lambda>b. btnKey b = o_key opts) (dockBtns pg2 (o_dockEl opts)) of
            Some b \<Rightarrow> maybeHideDock (o_dockEl opts)
                       (pg2\<lparr>dockBtns := (dockBtns pg2)(o_dockEl opts :=
                               removeBtn (o_key opts) (dockBtns pg2 (o_dockEl opts)))\<rparr>)
          | None \<Rightarrow> pg2))"
  using assms by (simp add: openFloatingWindow_def Let_def split: option.splits)

lemma panes_maybeHideDock: "panes (maybeHideDock d pg) = panes pg"
  by (simp add: maybeHideDock_def)

lemma dockBtns_maybeHideDock: "dockBtns (maybeHideDock d pg) = dockBtns pg"
  by (simp add: maybeHideDock_def)

lemma nextWin_maybeHideDock: "nextWin (maybeHideDock d pg) = nextWin pg"
  by (simp add: maybeHideDock_def)

lemma openFloatingWindow_existing:
  assumes "List.find (\<lambda>w. winKey w = o_key opts) (panes pg (o_paneEl opts)) = Some existing"
  shows "fst (openFloatingWindow opts pg) = winId existing"
    and "panes (snd (openFloatingWindow opts pg)) q =
           map (\<lambda>x. if winId x = winId existing
                     then x\<lparr>display := ''flex'', zIndex := Some (maxZ (allWindows pg) + 1)\<rparr> else x)
             (panes pg q)"
    and "dockBtns (snd (openFloatingWindow opts pg)) (o_dockEl opts)
           = removeBtn (o_key opts) (dockBtns pg (o_dockEl opts))"
    and "nextWin (snd (openFloatingWindow opts pg)) = nextWin pg"
proof -
  define pg2 where "pg2 = bringToFront (winId existing)
      (updWin (winId existing) (\<lambda>x. x\<lparr>display := ''flex''\<rparr>) pg)"
  have p2: "panes pg2 q = map (\<lambda>x. if winId x = winId existing
                     then x\<lparr>display := ''flex'', zIndex := Some (maxZ (allWindows pg) + 1)\<rparr> else x)
             (panes pg q)"
    by (simp add: pg2_def bringToFront_def panes_updWin maxZ_display)
  have d2: "dockBtns pg2 = dockBtns pg" by (simp add: pg2_def bringToFront_def dockBtns_updWin)
  have n2: "nextWin pg2 = nextWin pg" by (simp add: pg2_def bringToFront_def updWin_def)
  have eq: "openFloatingWindow opts pg =
     (winId existing,
       case List.find (\<lambda>b. btnKey b = o_key opts) (dockBtns pg2 (o_dockEl opts)) of
            Some b \<Rightarrow> maybeHideDock (o_dockEl opts)
                       (pg2\<lparr>dockBtns := (dockBtns pg2)(o_dockEl opts :=
                               removeBtn (o_key opts) (dockBtns pg2 (o_dockEl opts)))\<rparr>)
          | None \<Rightarrow> pg2)"
    unfolding pg2_def using openFloatingWindow_existing_eq[OF assms] by (simp add: Let_def)
  show "fst (openFloatingWindow opts pg) = winId existing" by (simp add: eq)
  show "panes (snd (openFloatingWindow opts pg)) q =
           map (\<lambda>x. if winId x = winId existing
                     then x\<lparr>display := ''flex'', zIndex := Some (maxZ (allWindows pg) + 1)\<rparr> else x)
             (panes pg q)"
  proof (cases "List.find (\<lambda>b. btnKey b = o_key opts) (dockBtns pg2 (o_dockEl opts))")
    case None
    then show ?thesis by (simp add: eq p2)
  next
    case (Some b)
    then show ?thesis by (simp add: eq p2 panes_maybeHideDock)
  qed
  show "dockBtns (snd (openFloatingWindow opts pg)) (o_dockEl opts)
           = removeBtn (o_key opts) (dockBtns pg (o_dockEl opts))"
  proof (cases "List.find (\<lambda>b. btnKey b = o_key opts) (dockBtns pg2 (o_dockEl opts))")
    case None
    then show ?thesis using removeBtn_absent[OF None] by (simp add: eq d2)
  next
    case (Some b)
    then show ?thesis by (simp add: eq d2 dockBtns_maybeHideDock)
  qed
  show "nextWin (snd (openFloatingWindow opts pg)) = nextWin pg"
  proof (cases "List.find (\<lambda>b. btnKey b = o_key opts) (dockBtns pg2 (o_dockEl opts))")
    case None
    then show ?thesis by (simp add: eq n2)
  next
    case (Some b)
    then show ?thesis by (simp add: eq n2 nextWin_maybeHideDock)
  qed
qed

lemma openFloatingWindow_new_eq:
  assumes "List.find (\<lambda>w. winKey w = o_key opts) (panes pg (o_paneEl opts)) = None"
  shows "openFloatingWindow opts pg =
     (nextWin pg,
      bringToFront (nextWin pg)
        (pg\<lparr>panes := (panes pg)(o_paneEl opts := panes pg (o_paneEl opts) @
                [\<lparr>winId = nextWin pg, winKey = o_key opts, winTitle = o_title opts,
                  display = [], zIndex = None,
                  left = 20 + int (length (panes pg (o_paneEl opts))) * 18,
                  top = 80 + int (length (panes pg (o_paneEl opts))) * 18,
                  body = (if o_type opts = ''pdf'' then PdfFrame (o_src opts)
                          else Markup (if o_html opts \<noteq> [] then o_html opts
                                       else ''<div class=\"sheet-wrap\">No content.</div>''))\<rparr>]),
            nextWin := Suc (nextWin pg)\<rparr>))"
  using assms by (simp add: openFloatingWindow_def Let_def)

lemma winKey_zupd:
  "winKey \<circ> (\<lambda>x. if winId x = i then x\<lparr>zIndex := z\<rparr> else x) = winKey"
  by (rule ext) simp

lemma winKey_upd:
  "winKey \<circ> (\<lambda>x. if winId x = i then x\<lparr>display := d, zIndex := z\<rparr> else x) = winKey"
  by (rule ext) simp

lemma openFloatingWindow_new:
  assumes "List.find (\<lambda>w. winKey w = o_key opts) (panes pg (o_paneEl opts)) = None"
  shows "map winKey (panes (snd (openFloatingWindow opts pg)) q) =
           (if q = o_paneEl opts then map winKey (panes pg q) @ [o_key opts] else map winKey (panes pg q))"
  by (simp add: openFloatingWindow_new_eq[OF assms] bringToFront_def panes_updWin winKey_zupd)

lemma openFloatingWindow_keys_distinct:
  assumes "distinct (map winKey (panes pg q))"
  shows "distinct (map winKey (panes (snd (openFloatingWindow opts pg)) q))"
proof (cases "List.find (\<lambda>w. winKey w = o_key opts) (panes pg (o_paneEl opts))")
  case None
  then show ?thesis
    using assms find_None_key[OF None] by (auto simp: openFloatingWindow_new)
next
  case (Some existing)
  then show ?thesis
    using assms by (simp add: openFloatingWindow_existing(2) winKey_upd)
qed


lemma raised_front: "raised (x\<lparr>zIndex := Some (maxZ ws + 1)\<rparr>)"
  using maxZ_ge_base[of ws] by (simp add: raised_def)

lemma raised_display: "raised (x\<lparr>display := d\<rparr>) = raised x"
  by (simp add: raised_def)

lemma raisedAll_bringToFront:
  "list_all (\<lambda>w. winId w = i \<or> raised w) (allWindows pg) \<Longrightarrow> raisedAll (bringToFront i pg)"
  by (auto simp: raisedAll_def bringToFront_def allWindows_updWin list_all_iff raised_front)

lemma raisedAll_display:
  "raisedAll pg \<Longrightarrow> raisedAll (updWin i (\<lambda>x. x\<lparr>display := d\<rparr>) pg)"
  by (auto simp: raisedAll_def allWindows_updWin list_all_iff raised_display)

lemma raisedAll_weaken: "raisedAll pg \<Longrightarrow> list_all (\<lambda>w. winId w = i \<or> raised w) (allWindows pg)"
  by (simp add: raisedAll_def list_all_iff)

lemma raisedAll_dock: "raisedAll (pg\<lparr>dockBtns := d\<rparr>) = raisedAll pg"
  "raisedAll (maybeHideDock k pg) = raisedAll pg"
  "raisedAll (ensureDockVisible k pg) = raisedAll pg"
  by (simp_all add: raisedAll_def allWindows_def maybeHideDock_def ensureDockVisible_def)

lemma raisedAll_emptyPage: "raisedAll emptyPage"
  by (simp add: raisedAll_def allWindows_def emptyPage_def)

lemma raisedAll_openFloatingWindow:
  assumes "raisedAll pg"
  shows "raisedAll (snd (openFloatingWindow opts pg))"
proof (cases "List.find (\<lambda>w. winKey w = o_key opts) (panes pg (o_paneEl opts))")
  case None
  have "list_all (\<lambda>w. winId w = nextWin pg \<or> raised w)
          (allWindows (pg\<lparr>panes := (panes pg)(o_paneEl opts := panes pg (o_paneEl opts) @
                [\<lparr>winId = nextWin pg, winKey = o_key opts, winTitle = o_title opts,
                  display = [], zIndex = None,
                  left = 20 + int (length (panes pg (o_paneEl opts))) * 18,
                  top = 80 + int (length (panes pg (o_paneEl opts))) * 18,
                  body = (if o_type opts = ''pdf'' then PdfFrame (o_src opts)
                          else Markup (if o_html opts \<noteq> [] then o_html opts
                                       else ''<div class=\"sheet-wrap\">No content.</div>''))\<rparr>]),
            nextWin := Suc (nextWin pg)\<rparr>))"
    using assms by (cases "o_paneEl opts") (auto simp: raisedAll_def allWindows_def list_all_iff)
  then show ?thesis
    by (simp add: openFloatingWindow_new_eq[OF None] raisedAll_bringToFront)
next
  case (Some existing)
  have "raisedAll (bringToFront (winId existing)
                   (updWin (winId existing) (\<lambda>x. x\<lparr>display := ''flex''\<rparr>) pg))"
    by (intro raisedAll_bringToFront raisedAll_weaken raisedAll_display assms)
  then show ?thesis
    by (simp add: openFloatingWindow_existing_eq[OF Some] Let_def raisedAll_dock split: option.splits)
qed

lemma raisedAll_handlers:
  assumes "raisedAll pg"
  shows "raisedAll (minimizeClick w k t d pg)"
    and "raisedAll (closeClick w k d pg)"
    and "raisedAll (dockBtnClick w b d pg)"
proof -
  show "raisedAll (minimizeClick w k t d pg)"
    using raisedAll_display[OF assms, of w "''none''"]
    by (simp add: minimizeClick_def Let_def raisedAll_dock)
  show "raisedAll (closeClick w k d pg)"
    using assms
    by (auto simp: closeClick_def raisedAll_def allWindows_def list_all_iff panes_maybeHideDock)
  show "raisedAll (dockBtnClick w b d pg)"
    by (simp add: dockBtnClick_def Let_def raisedAll_dock)
       (intro raisedAll_bringToFront raisedAll_weaken raisedAll_display assms)
qed

lemma twoWindows_panes:
  "panes twoWindows LeftPane =
     [\<lparr>winId = 0, winKey = ''mosaic-meta-1924'', winTitle = ''Mosaic Metadata (1924)'',
       display = [], zIndex = Some 10001, left = 20, top = 80,
       body = Markup ''<em>Loading metadata</em>''\<rparr>]"
  "panes twoWindows RightPane =
     [\<lparr>winId = 1, winKey = ''archive-collection-provenance'',
       winTitle = ''Engineering Reports Collection Provenance'',
       display = [], zIndex = Some 10002, left = 20, top = 80,
       body = PdfFrame ''pdfjs/web/viewer.html?file=prov.pdf#page=1&zoom=75&pagemode=none''\<rparr>]"
  "dockBtns twoWindows d = []"
  by (simp_all add: twoWindows_def openFloatingWindow_def emptyPage_def metaOpts_def provOpts_def
      bringToFront_def updWin_def allWindows_def maxZ_def Let_def)

lemma minimizedMeta_parts:
  "panes minimizedMeta LeftPane =
     [\<lparr>winId = 0, winKey = ''mosaic-meta-1924'', winTitle = ''Mosaic Metadata (1924)'',
       display = ''none'', zIndex = Some 10001, left = 20, top = 80,
       body = Markup ''<em>Loading metadata</em>''\<rparr>]"
  "panes minimizedMeta RightPane = panes twoWindows RightPane"
  "dockBtns minimizedMeta MapDock =
     [\<lparr>btnKey = ''mosaic-meta-1924'', btnText = ''Mosaic Metadata (1924)'', btnWin = 0\<rparr>]"
  by (simp_all add: minimizedMeta_def minimizeClick_def ensureDockVisible_def updWin_def Let_def
      twoWindows_panes)

lemma maxZ_eq_Max: "maxZ (allWindows pg) = Max (insert 10000 (set (zValues pg)))"
proof -
  have fin: "finite (insert 10000 (set (zValues pg)))" by simp
  have up: "\<And>y. y \<in> insert 10000 (set (zValues pg)) \<Longrightarrow> y \<le> maxZ (allWindows pg)"
    using maxZ_ge_base[of "allWindows pg"] by (auto simp: set_zValues intro: maxZ_upper)
  have mem: "maxZ (allWindows pg) \<in> insert 10000 (set (zValues pg))"
    using maxZ_attained[of "allWindows pg"] by (auto simp: set_zValues)
  show ?thesis using fin up mem by (intro Max_eqI[symmetric])
qed

lemma zIndex_after:
  "map zIndex (map (\<lambda>x. if winId x = w then x\<lparr>zIndex := Some m\<rparr> else x) ws)
     = map2 (\<lambda>i z. if i = w then Some m else z) (map winId ws) (map zIndex ws)"
  by (induction ws) simp_all

lemma openFloatingWindow_new_appended:
  assumes "List.find (\<lambda>w. winKey w = o_key opts) (panes pg (o_paneEl opts)) = None"
  shows "openFloatingWindow opts pg = (nextWin pg, bringToFront (nextWin pg) (appendedPage opts pg))"
  by (simp add: openFloatingWindow_new_eq[OF assms] appendedPage_def)

lemma metaAppended_reached:
  "openFloatingWindow metaOpts emptyPage = (0, bringToFront 0 metaAppended)"
proof -
  have "List.find (\<lambda>w. winKey w = o_key metaOpts) (panes emptyPage (o_paneEl metaOpts)) = None"
    by (simp add: emptyPage_def)
  from openFloatingWindow_new_appended[OF this] show ?thesis
    by (simp add: metaAppended_def) (simp add: emptyPage_def)
qed

lemma firstOpened_parts:
  "panes (snd (openFloatingWindow metaOpts emptyPage)) LeftPane =
     [\<lparr>winId = 0, winKey = ''mosaic-meta-1924'', winTitle = ''Mosaic Metadata (1924)'',
       display = [], zIndex = Some 10001, left = 20, top = 80,
       body = Markup ''<em>Loading metadata</em>''\<rparr>]"
  "panes (snd (openFloatingWindow metaOpts emptyPage)) RightPane = []"
  "nextWin (snd (openFloatingWindow metaOpts emptyPage)) = 1"
  by (simp_all add: openFloatingWindow_def emptyPage_def metaOpts_def
      bringToFront_def updWin_def allWindows_def maxZ_def Let_def)

lemma provAppended_reached: "twoWindows = bringToFront 1 provAppended"
proof -
  have "List.find (\<lambda>w. winKey w = o_key provOpts)
          (panes (snd (openFloatingWindow metaOpts emptyPage)) (o_paneEl provOpts)) = None"
    by (simp add: provOpts_def firstOpened_parts)
  from openFloatingWindow_new_appended[OF this] show ?thesis
    by (simp add: twoWindows_def provAppended_def firstOpened_parts)
qed

lemma provAppended_windows:
  "map zIndex (allWindows provAppended) = [Some 10001, None]"
  "map winId (allWindows provAppended) = [0, 1]"
  by (simp_all add: provAppended_def appendedPage_def allWindows_def provOpts_def firstOpened_parts)

lemma metaAppended_windows:
  "map zIndex (allWindows metaAppended) = [None]" "zValues metaAppended = []"
  by (simp_all add: metaAppended_def appendedPage_def allWindows_def metaOpts_def emptyPage_def
      zValues_def)

text \<open>
  Claim C8, as the code has it. \<open>bringToFront\<close> looks at every floating window of the
  document, in both panes, and starts its search for the largest z-index from the floor
  10000; a window whose z-index is not a number (one just created) is passed over. The
  window gets one more than the larger of the floor and the largest z-index found, and
  no other window changes. So the new value is above the z-index of every window of the
  page, it is never below 10001, and it is one more than the largest z-index of the page
  as soon as some window of the page has a z-index of 10000 or more.
\<close>

theorem bringToFront_front_with_floor:
  "bringToFront w pg =
     pg\<lparr>panes := (\<lambda>q. map (\<lambda>x. if winId x = w
                                then x\<lparr>zIndex := Some (Max (insert 10000 (set (zValues pg))) + 1)\<rparr>
                                else x) (panes pg q))\<rparr>
   \<and> list_all (\<lambda>z. z < Max (insert 10000 (set (zValues pg))) + 1) (zValues pg)
   \<and> 10000 < Max (insert 10000 (set (zValues pg))) + 1
   \<and> (list_ex (\<lambda>z. 10000 \<le> z) (zValues pg) \<longrightarrow>
        Max (insert 10000 (set (zValues pg))) = Max (set (zValues pg)))"
proof -
  have eq: "bringToFront w pg =
     pg\<lparr>panes := (\<lambda>q. map (\<lambda>x. if winId x = w
                                then x\<lparr>zIndex := Some (Max (insert 10000 (set (zValues pg))) + 1)\<rparr>
                                else x) (panes pg q))\<rparr>"
    by (simp add: bringToFront_def updWin_def maxZ_eq_Max)
  have below: "list_all (\<lambda>z. z < Max (insert 10000 (set (zValues pg))) + 1) (zValues pg)"
    by (simp add: list_all_iff less_Suc_eq_le)
  have floor: "10000 < Max (insert 10000 (set (zValues pg))) + 1"
  proof -
    have "(10000::int) \<le> Max (insert 10000 (set (zValues pg)))" by (intro Max_ge) simp_all
    then show ?thesis by simp
  qed
  have same: "Max (insert 10000 (set (zValues pg))) = Max (set (zValues pg))"
    if ex: "list_ex (\<lambda>z. 10000 \<le> z) (zValues pg)"
  proof -
    obtain z where z: "z \<in> set (zValues pg)" "10000 \<le> z" using ex by (auto simp: list_ex_iff)
    then have ne: "set (zValues pg) \<noteq> {}" by auto
    have "z \<le> Max (set (zValues pg))" using z(1) by (intro Max_ge) simp_all
    then have "10000 \<le> Max (set (zValues pg))" using z(2) by simp
    then show ?thesis using ne by (simp add: max_def)
  qed
  show ?thesis using eq below floor same by blast
qed

theorem bringToFront_front_with_floor_witness:
  "list_ex (\<lambda>z. 10000 \<le> z) (zValues provAppended)
   \<and> map zIndex (allWindows provAppended) = [Some 10001, None]
   \<and> Max (set (zValues provAppended)) = 10001
   \<and> map zIndex (allWindows (bringToFront 1 provAppended)) = [Some 10001, Some 10002]"
proof -
  have z: "zValues provAppended = [10001]"
    using provAppended_windows(1)
    by (simp add: zValues_def map_eq_Cons_conv) (auto simp: map_eq_Cons_conv)
  note T = bringToFront_front_with_floor[of 1 provAppended]
  have "allWindows (bringToFront 1 provAppended)
      = map (\<lambda>x. if winId x = 1
                  then x\<lparr>zIndex := Some (Max (insert 10000 (set (zValues provAppended))) + 1)\<rparr>
                  else x) (allWindows provAppended)"
    using T[THEN conjunct1] by (simp add: allWindows_def)
  then have "map zIndex (allWindows (bringToFront 1 provAppended))
      = map2 (\<lambda>i z. if i = 1 then Some (Max (insert 10000 (set (zValues provAppended))) + 1) else z)
          (map winId (allWindows provAppended)) (map zIndex (allWindows provAppended))"
    by (simp only: zIndex_after)
  then have a: "map zIndex (allWindows (bringToFront 1 provAppended)) = [Some 10001, Some 10002]"
    by (simp add: provAppended_windows z)
  show ?thesis using provAppended_windows(1) a by (simp add: z)
qed

text \<open>
  The claim as the spec states it leaves out the floor. On the page of the first window
  the manager opens no floating window has a z-index, and \<open>bringToFront\<close> gives the
  window 10001, which is one more than the floor and not one more than a z-index of the
  page.
\<close>

theorem bringToFront_first_window_counterexample:
  "fst (openFloatingWindow metaOpts emptyPage) = 0
   \<and> snd (openFloatingWindow metaOpts emptyPage) = bringToFront 0 metaAppended
   \<and> map zIndex (allWindows metaAppended) = [None]
   \<and> zValues metaAppended = []
   \<and> map zIndex (allWindows (bringToFront 0 metaAppended)) = [Some 10001]"
proof -
  have "allWindows (bringToFront 0 metaAppended) = panes (snd (openFloatingWindow metaOpts emptyPage)) LeftPane
      @ panes (snd (openFloatingWindow metaOpts emptyPage)) RightPane"
    by (simp add: metaAppended_reached allWindows_def)
  then have "map zIndex (allWindows (bringToFront 0 metaAppended)) = [Some 10001]"
    by (simp add: firstOpened_parts)
  then show ?thesis by (simp add: metaAppended_reached metaAppended_windows)
qed

text \<open>
  Claim C5. When the pane already holds a window with the key, \<open>openFloatingWindow\<close>
  returns that window and creates nothing: the panes hold the same elements in the same
  order, the found window is shown (\<open>display: flex\<close>) and gets the z-index above every
  window of the page, the first dock button with the key is removed when there is one.
  In either branch of the function the keys of the windows of a pane stay pairwise
  different.
\<close>

theorem openFloatingWindow_existing_key:
  "(distinct (map winKey (panes pg q)) \<longrightarrow>
      distinct (map winKey (panes (snd (openFloatingWindow opts pg)) q)))
   \<and> (List.find (\<lambda>w. winKey w = o_key opts) (panes pg (o_paneEl opts)) = Some existing \<longrightarrow>
        fst (openFloatingWindow opts pg) = winId existing
      \<and> panes (snd (openFloatingWindow opts pg)) q =
           map (\<lambda>x. if winId x = winId existing
                     then x\<lparr>display := ''flex'', zIndex := Some (maxZ (allWindows pg) + 1)\<rparr> else x)
             (panes pg q)
      \<and> list_all (\<lambda>z. z < maxZ (allWindows pg) + 1) (zValues pg)
      \<and> dockBtns (snd (openFloatingWindow opts pg)) (o_dockEl opts)
           = removeBtn (o_key opts) (dockBtns pg (o_dockEl opts))
      \<and> nextWin (snd (openFloatingWindow opts pg)) = nextWin pg)"
proof -
  have "list_all (\<lambda>z. z < maxZ (allWindows pg) + 1) (zValues pg)"
    using maxZ_upper[of _ "allWindows pg"]
    by (auto simp: list_all_iff set_zValues less_Suc_eq_le intro: le_imp_less_Suc)
  then show ?thesis
    using openFloatingWindow_keys_distinct[where pg = pg and q = q and opts = opts]
      openFloatingWindow_existing(1)[where opts = opts and pg = pg and existing = existing]
      openFloatingWindow_existing(2)[where opts = opts and pg = pg and existing = existing and q = q]
      openFloatingWindow_existing(3)[where opts = opts and pg = pg and existing = existing]
      openFloatingWindow_existing(4)[where opts = opts and pg = pg and existing = existing]
    by simp
qed

theorem openFloatingWindow_existing_key_witness:
  "distinct (map winKey (panes minimizedMeta LeftPane))
   \<and> List.find (\<lambda>w. winKey w = o_key metaOpts) (panes minimizedMeta (o_paneEl metaOpts))
       = Some (hd (panes minimizedMeta LeftPane))
   \<and> fst (openFloatingWindow metaOpts minimizedMeta) = 0
   \<and> panes (snd (openFloatingWindow metaOpts minimizedMeta)) LeftPane =
       [\<lparr>winId = 0, winKey = ''mosaic-meta-1924'', winTitle = ''Mosaic Metadata (1924)'',
         display = ''flex'', zIndex = Some 10003, left = 20, top = 80,
         body = Markup ''<em>Loading metadata</em>''\<rparr>]
   \<and> dockBtns (snd (openFloatingWindow metaOpts minimizedMeta)) MapDock = []
   \<and> distinct (map winKey (panes (snd (openFloatingWindow metaOpts minimizedMeta)) LeftPane))"
proof -
  have d: "distinct (map winKey (panes minimizedMeta LeftPane))"
    by (simp add: minimizedMeta_parts)
  have f: "List.find (\<lambda>w. winKey w = o_key metaOpts) (panes minimizedMeta (o_paneEl metaOpts))
       = Some (hd (panes minimizedMeta LeftPane))"
    by (simp add: minimizedMeta_parts metaOpts_def)
  have m: "maxZ (allWindows minimizedMeta) = 10002"
    by (simp add: maxZ_def allWindows_def minimizedMeta_parts twoWindows_panes)
  show ?thesis
    using d f m
      openFloatingWindow_existing_key[where pg = minimizedMeta and q = LeftPane and opts = metaOpts
        and existing = "hd (panes minimizedMeta LeftPane)"]
    by (simp add: minimizedMeta_parts metaOpts_def)
qed

section \<open>The viewer launch URL\<close>

lemma truthy_jsOr: "truthy (jsOr a b) = (truthy a \<or> truthy b)"
  by (simp add: jsOr_def)

lemma truthy_not_null: "truthy v \<Longrightarrow> v \<noteq> JNull \<and> v \<noteq> JUndefined"
  by (cases v) simp_all

lemma jsOr_JNull: "truthy (jsOr a JNull) = truthy a" "truthy a \<Longrightarrow> jsOr a JNull = a"
  by (simp_all add: jsOr_def)

lemma formEncode_names: "formEncode ''file'' = ''file''" "formEncode ''aimTitle'' = ''aimTitle''"
  by (simp_all add: formEncode_def isAlnum_def)

text \<open>
  Claim C9. For every document URL and every option object, the result is the fixed
  entry point \<open>pdfjs/web/viewer.html\<close>, a query string that starts with the \<open>file\<close>
  parameter holding the form-encoded URL and continues with an \<open>aimTitle\<close> parameter
  exactly when \<open>opts.aimTitle || opts.title\<close> is truthy, and a fragment that always
  holds \<open>page\<close> (default 1), \<open>zoom\<close> (default \<open>page-width\<close>) and \<open>pagemode\<close> (default
  \<open>none\<close>), in this order, followed by \<open>view\<close> when that option is given.
\<close>

theorem buildPdfJsViewerUrl_shape:
  "buildPdfJsViewerUrl u opts =
     ''pdfjs/web/viewer.html'' @ ''?'' @ ''file='' @ formEncode u @
     (if truthy (jsOr (opt_aimTitle opts) (opt_title opts))
      then ''&aimTitle='' @ formEncode (toString (jsOr (opt_aimTitle opts) (opt_title opts)))
      else []) @
     ''#'' @ ''page='' @ encodeURIComponent (toString (jsOr (opt_page opts) (JNum 1))) @
     ''&zoom='' @ encodeURIComponent (toString (jsOr (opt_zoom opts) (JStr ''page-width''))) @
     ''&pagemode='' @ encodeURIComponent (toString (jsOr (opt_pagemode opts) (JStr ''none''))) @
     (if truthy (opt_view opts) then ''&view='' @ encodeURIComponent (toString (opt_view opts))
      else [])"
proof -
  have z: "jsOr (opt_zoom opts) (JStr ''page-width'') \<noteq> JNull \<and>
           jsOr (opt_zoom opts) (JStr ''page-width'') \<noteq> JUndefined"
    by (rule truthy_not_null) (simp add: truthy_jsOr)
  have p: "truthy (jsOr (opt_page opts) (JNum 1))" by (simp add: truthy_jsOr)
  have m: "truthy (jsOr (opt_pagemode opts) (JStr ''none''))" by (simp add: truthy_jsOr)
  show ?thesis
    using z p m
    by (simp add: buildPdfJsViewerUrl_def Let_def viewerBase_def paramsSet_def paramsToString_def
        formEncode_names jsOr_JNull)
qed

section \<open>The PDF tab manager\<close>

subsection \<open>Keys\<close>

lemma setProp_fresh: "k \<notin> fst ` set obj \<Longrightarrow> setProp obj k v = obj @ [(k, v)]"
  unfolding setProp_def by (induction obj) auto

lemma map_of_deleteProp: "map_of (deleteProp obj k) k' = (if k' = k then None else map_of obj k')"
  by (simp add: deleteProp_def AList.delete_conv)

lemma keys_deleteProp: "map fst (deleteProp obj k) = filter (\<lambda>x. x \<noteq> k) (map fst obj)"
  unfolding deleteProp_def by (induction obj) auto

lemma set_deleteProp: "set (deleteProp obj k) = {p \<in> set obj. fst p \<noteq> k}"
  unfolding deleteProp_def by (induction obj) auto

lemma of_char_digitChar: "d < 10 \<Longrightarrow> (of_char (digitChar d) :: nat) = 48 + d"
  by (simp add: digitChar_def)

lemma readNat_snoc: "readNat (s @ [c]) = 10 * readNat s + ((of_char c :: nat) - 48)"
  by (simp add: readNat_def)

lemma readNat_showNat: "readNat (showNat n) = n"
proof (induction n rule: showNat.induct)
  case (1 n)
  show ?case
  proof (cases "n < 10")
    case True
    then show ?thesis by (simp add: showNat.simps[of n] readNat_def of_char_digitChar)
  next
    case False
    then show ?thesis using 1 by (simp add: showNat.simps[of n] readNat_snoc of_char_digitChar)
  qed
qed

lemma showNat_digits: "showNat n \<noteq> [] \<and> list_all isDigit (showNat n)"
proof (induction n rule: showNat.induct)
  case (1 n)
  have d: "isDigit (digitChar k)" if "k < 10" for k
    using that by (simp add: isDigit_def of_char_digitChar)
  show ?case
  proof (cases "n < 10")
    case True
    then show ?thesis using d[of n] by (simp add: showNat.simps[of n])
  next
    case False
    then show ?thesis using 1 d[of "n mod 10"] by (simp add: showNat.simps[of n])
  qed
qed

lemma suffixed_inj: "suffixed b m = suffixed b n \<Longrightarrow> m = n"
proof -
  assume "suffixed b m = suffixed b n"
  then have "showNat m = showNat n" by (simp add: suffixed_def)
  then have "readNat (showNat m) = readNat (showNat n)" by simp
  then show "m = n" by (simp add: readNat_showNat)
qed

lemma suffixed_not_proto: "suffixed b n \<notin> set protoKeys"
proof -
  have "last (suffixed b n) = CHR '')''" by (simp add: suffixed_def)
  moreover have "\<forall>p \<in> set protoKeys. last p \<noteq> CHR '')''" by (simp add: protoKeys_def)
  ultimately show ?thesis by metis
qed

lemma suffixed_not_index: "\<not> isArrayIndex (suffixed b n)"
proof -
  have "CHR '')'' \<in> set (suffixed b n)" by (simp add: suffixed_def)
  moreover have "\<not> isDigit (CHR '')'')" by (simp add: isDigit_def)
  ultimately show ?thesis by (auto simp: isArrayIndex_def list_all_iff)
qed

lemma suffixed_neq_base: "suffixed b n \<noteq> b"
  by (simp add: suffixed_def)

lemma truthy_suffixed:
  "truthyProp (getProp obj (suffixed b n)) = (suffixed b n \<in> fst ` set obj)"
  by (simp add: truthy_getProp suffixed_not_proto)

lemma whileOpen_from:
  "tabKey = suffixed b n \<Longrightarrow> c = Suc n \<Longrightarrow>
   \<exists>m\<ge>n. whileOpen obj b tabKey c = suffixed b m \<and> suffixed b m \<notin> fst ` set obj \<and>
         (\<forall>j. n \<le> j \<and> j < m \<longrightarrow> suffixed b j \<in> fst ` set obj)"
proof (induction obj b tabKey c arbitrary: n rule: whileOpen.induct)
  case (1 obj baseKey tabKey c)
  show ?case
  proof (cases "truthyProp (getProp obj tabKey)")
    case False
    then have "whileOpen obj baseKey tabKey c = tabKey"
      by (subst whileOpen.simps) simp
    then have "whileOpen obj baseKey tabKey c = suffixed baseKey n"
      using "1.prems" by simp
    moreover have "suffixed baseKey n \<notin> fst ` set obj"
      using False "1.prems" by (simp add: truthy_suffixed)
    ultimately show ?thesis by (intro exI[of _ n]) auto
  next
    case True
    from "1.IH"[OF True, of c] "1.prems"
    obtain m where m: "m \<ge> c" "whileOpen obj baseKey (suffixed baseKey c) (Suc c) = suffixed baseKey m"
      "suffixed baseKey m \<notin> fst ` set obj"
      "\<forall>j. c \<le> j \<and> j < m \<longrightarrow> suffixed baseKey j \<in> fst ` set obj"
      by auto
    have here: "suffixed baseKey n \<in> fst ` set obj"
      using True "1.prems" by (simp add: truthy_suffixed)
    have "whileOpen obj baseKey tabKey c = whileOpen obj baseKey (suffixed baseKey c) (Suc c)"
      using True by (subst whileOpen.simps) simp
    then have "whileOpen obj baseKey tabKey c = suffixed baseKey m"
      using m(2) by simp
    moreover have "\<forall>j. n \<le> j \<and> j < m \<longrightarrow> suffixed baseKey j \<in> fst ` set obj"
    proof (intro allI impI)
      fix j assume j: "n \<le> j \<and> j < m"
      show "suffixed baseKey j \<in> fst ` set obj"
      proof (cases "j = n")
        case True
        then show ?thesis using here by simp
      next
        case False
        then have "c \<le> j" using j "1.prems" by simp
        then show ?thesis using m(4) j by simp
      qed
    qed
    moreover have "m \<ge> n" using m(1) "1.prems" by simp
    ultimately show ?thesis using m(3) by (intro exI[of _ m]) simp
  qed
qed

lemma whileOpen_duplicate:
  assumes "truthyProp (getProp obj f)"
  shows "\<exists>m\<ge>2. whileOpen obj f f 2 = suffixed f m \<and> suffixed f m \<notin> fst ` set obj \<and>
         (\<forall>j. 2 \<le> j \<and> j < m \<longrightarrow> suffixed f j \<in> fst ` set obj)"
proof -
  have "whileOpen obj f f 2 = whileOpen obj f (suffixed f 2) (Suc 2)"
    using assms by (subst whileOpen.simps) simp
  then show ?thesis
    using whileOpen_from[of "suffixed f 2" f 2 "Suc 2" obj] by simp
qed

lemma whileOpen_free: "\<not> truthyProp (getProp obj f) \<Longrightarrow> whileOpen obj f f 2 = f"
  by (subst whileOpen.simps) simp

subsection \<open>Labels and active markings\<close>

lemma dropWhile_long:
  "\<not> P y \<Longrightarrow> length (y # ys) \<le> length (dropWhile P (xs @ y # ys))"
  by (induction xs) auto

lemma parenDigits_digits:
  "ds \<noteq> [] \<Longrightarrow> list_all isDigit ds \<Longrightarrow> parenDigits (ds @ '')'') \<and> takeWhile isDigit (ds @ '')'') = ds"
proof -
  assume d: "ds \<noteq> []" "list_all isDigit ds"
  have nd: "\<not> isDigit (CHR '')'')" by (simp add: isDigit_def)
  have t: "takeWhile isDigit (ds @ '')'') = ds"
    using d(2) nd by (simp add: takeWhile_append2 list_all_iff)
  have "dropWhile isDigit (ds @ '')'') = '')''"
    using d(2) nd by (simp add: dropWhile_append2 list_all_iff)
  then show ?thesis using t d(1) by (simp add: parenDigits_def)
qed

lemma dupCounter_suffix:
  assumes "ds \<noteq> []" and "list_all isDigit ds"
  shows "dupCounter (b @ '' ('' @ ds @ '')'') = ds"
proof (induction b)
  case Nil
  show ?case using parenDigits_digits[OF assms] by simp
next
  case (Cons c cs)
  have ns: "\<not> isDigit (CHR '' '')" by (simp add: isDigit_def)
  have "length (CHR '' '' # ''('' @ ds @ '')'') \<le> length (dropWhile isDigit (cs @ CHR '' '' # ''('' @ ds @ '')''))"
    using ns by (rule dropWhile_long)
  then have "dropWhile isDigit (cs @ '' ('' @ ds @ '')'') \<noteq> '')''"
    by auto
  then have "\<not> parenDigits (cs @ '' ('' @ ds @ '')'')" by (simp add: parenDigits_def)
  then show ?case using Cons by simp
qed

lemma dupCounter_suffixed: "dupCounter (suffixed b n) = showNat n"
  using dupCounter_suffix[of "showNat n" b] showNat_digits[of n] by (simp add: suffixed_def)

lemma filter_eq_single: "distinct xs \<Longrightarrow> i \<in> set xs \<Longrightarrow> filter (\<lambda>x. x = i) xs = [i]"
  by (induction xs) (auto simp: filter_empty_conv)

lemma tabId_addActive: "map tabId (addActive i els) = map tabId els"
  by (induction els) (simp_all add: addActive_def)

lemma tabId_clearActive: "map tabId (clearActive obj els) = map tabId els"
  by (induction els) (simp_all add: clearActive_def)

lemma spanLabel_addActive: "map spanLabel (addActive i els) = map spanLabel els"
  by (induction els) (simp_all add: addActive_def)

lemma spanLabel_clearActive: "map spanLabel (clearActive obj els) = map spanLabel els"
  by (induction els) (simp_all add: clearActive_def)

lemma activeTabs_activated:
  assumes "set (map tabId els) \<subseteq> set (entryTabs obj)" and "distinct (map tabId els)"
    and "i \<in> set (map tabId els)"
  shows "map tabId (filter active (addActive i (clearActive obj els))) = [i]"
proof -
  have c: "clearActive obj els = map (\<lambda>el. el\<lparr>active := False\<rparr>) els"
    using assms(1) by (auto simp: clearActive_def entryTabs_def)
  have "map tabId (filter active (addActive i (map (\<lambda>el. el\<lparr>active := False\<rparr>) els)))
        = filter (\<lambda>x. x = i) (map tabId els)"
    by (induction els) (simp_all add: addActive_def)
  then show ?thesis using c filter_eq_single[OF assms(2,3)] by simp
qed


lemma activatePdfTab_own:
  assumes "map_of (openPdfs s) k = Some e"
  shows "\<exists>s'. activatePdfTab k s = Returned s'
     \<and> activePdfKey s' = Some k
     \<and> pdfTabs s' = addActive (tab e) (clearActive (openPdfs s) (pdfTabs s))
     \<and> pdfViewer s' = map_option (\<lambda>old. buildPdfJsViewerUrl (url e) (pdfViewOpts (aimTitle e))) (pdfViewer s)
     \<and> openPdfs s' = openPdfs s \<and> nextElem s' = nextElem s \<and> checkboxes s' = checkboxes s
     \<and> aim_session s' = aim_session s \<and> storageOk s' = storageOk s
     \<and> archiveData s' = archiveData s \<and> mapLayers s' = mapLayers s \<and> overlays s' = overlays s"
  using assms
  by (cases "pdfViewer s") (simp_all add: activatePdfTab_def getProp_def Let_def)

lemma persist_fields:
  "openPdfs (persistStateToSession s) = openPdfs s"
  "activePdfKey (persistStateToSession s) = activePdfKey s"
  "pdfTabs (persistStateToSession s) = pdfTabs s"
  "pdfViewer (persistStateToSession s) = pdfViewer s"
  "nextElem (persistStateToSession s) = nextElem s"
  "checkboxes (persistStateToSession s) = checkboxes s"
  "overlays (persistStateToSession s) = overlays s"
  "overlayMeta (persistStateToSession s) = overlayMeta s"
  "mapLayers (persistStateToSession s) = mapLayers s"
  "archiveData (persistStateToSession s) = archiveData s"
  "storageOk (persistStateToSession s) = storageOk s"
  by (simp_all add: persistStateToSession_def)

lemma activeTabs_persist: "activeTabs (persistStateToSession s) = activeTabs s"
  by (simp add: activeTabs_def persist_fields)

subsection \<open>Opening a duplicate\<close>

lemma entryTabs_append: "entryTabs (obj @ [(k, e)]) = entryTabs obj @ [tab e]"
  by (simp add: entryTabs_def)

lemma map_of_append_fresh:
  "k \<notin> fst ` set obj \<Longrightarrow> map_of (obj @ [(k, v)]) k' = (if k' = k then Some v else map_of obj k')"
  using own_key_iff[of k obj] by (auto simp: map_add_def split: option.splits)

lemma ownKeys_append_nonindex:
  "\<not> isArrayIndex k \<Longrightarrow> ownKeys (obj @ [(k, v)]) = ownKeys obj @ [k]"
  by (simp add: ownKeys_def Let_def)

lemma openPdfInTab_duplicate:
  assumes wf: "tabsWf s" and dup: "f \<in> fst ` set (openPdfs s)"
  shows "\<exists>n s'. 2 \<le> n \<and> openPdfInTab f u t s = Returned s'
     \<and> (\<forall>m. 2 \<le> m \<and> m < n \<longrightarrow> suffixed f m \<in> fst ` set (openPdfs s))
     \<and> suffixed f n \<notin> fst ` set (openPdfs s)
     \<and> openPdfs s' = openPdfs s @
          [(suffixed f n,
            \<lparr>tab = nextElem s, url = u,
             label = (if t \<noteq> [] \<and> trim t \<noteq> [] then trim t else f) @ '' ('' @ showNat n @ '')'',
             filename = Some f,
             aimTitle = (if t \<noteq> [] \<and> trim t \<noteq> [] then trim t else f)\<rparr>)]
     \<and> ownKeys (openPdfs s') = ownKeys (openPdfs s) @ [suffixed f n]
     \<and> activePdfKey s' = Some (suffixed f n)
     \<and> map tabId (activeTabs s') = [nextElem s]
     \<and> map tabId (pdfTabs s') = map tabId (pdfTabs s) @ [nextElem s]"
proof -
  have tr: "truthyProp (getProp (openPdfs s) f)" using dup by (simp add: truthy_getProp)
  obtain n where n: "2 \<le> n" "whileOpen (openPdfs s) f f 2 = suffixed f n"
    "suffixed f n \<notin> fst ` set (openPdfs s)"
    "\<forall>j. 2 \<le> j \<and> j < n \<longrightarrow> suffixed f j \<in> fst ` set (openPdfs s)"
    using whileOpen_duplicate[OF tr] by auto
  define lbl where "lbl = (if t \<noteq> [] \<and> trim t \<noteq> [] then trim t else f)"
  define entry where "entry = \<lparr>tab = nextElem s, url = u,
             label = lbl @ '' ('' @ showNat n @ '')'', filename = Some f, aimTitle = lbl\<rparr>"
  define el where "el = \<lparr>tabId = nextElem s, spanLabel = lbl @ '' ('' @ showNat n @ '')'',
             active = False, closeBtn = CallsClosePdfTab (suffixed f n)\<rparr>"
  define s1 where "s1 = s\<lparr>pdfTabs := pdfTabs s @ [el], nextElem := Suc (nextElem s),
                 openPdfs := openPdfs s @ [(suffixed f n, entry)]\<rparr>"
  have unfold: "openPdfInTab f u t s =
      andThen (activatePdfTab (suffixed f n) s1) (\<lambda>s2. Returned (persistStateToSession s2))"
    by (simp add: openPdfInTab_def Let_def n(2) suffixed_neq_base dupCounter_suffixed
        setProp_fresh[OF n(3)] s1_def el_def entry_def lbl_def)
  have look: "map_of (openPdfs s1) (suffixed f n) = Some entry"
    using map_of_append_fresh[OF n(3), of entry "suffixed f n"] by (simp add: s1_def del: map_of_append)
  obtain s2 where s2: "activatePdfTab (suffixed f n) s1 = Returned s2"
    "activePdfKey s2 = Some (suffixed f n)"
    "pdfTabs s2 = addActive (tab entry) (clearActive (openPdfs s1) (pdfTabs s1))"
    "openPdfs s2 = openPdfs s1"
    using activatePdfTab_own[OF look] by auto
  have ids: "set (map tabId (pdfTabs s1)) \<subseteq> set (entryTabs (openPdfs s1))"
    using wf by (auto simp: tabsWf_def s1_def el_def entry_def entryTabs_append)
  have lt: "\<forall>el \<in> set (pdfTabs s). tabId el < nextElem s"
    using wf by (simp add: tabsWf_def list_all_iff)
  have "nextElem s \<notin> tabId ` set (pdfTabs s)"
  proof
    assume "nextElem s \<in> tabId ` set (pdfTabs s)"
    then obtain x where "x \<in> set (pdfTabs s)" "tabId x = nextElem s" by auto
    then show False using lt by auto
  qed
  then have fresh: "nextElem s \<notin> set (map tabId (pdfTabs s))" by simp
  have dist: "distinct (map tabId (pdfTabs s1))"
    using wf fresh by (simp add: tabsWf_def s1_def el_def)
  have mem: "tab entry \<in> set (map tabId (pdfTabs s1))"
    by (simp add: s1_def el_def entry_def)
  have act: "map tabId (activeTabs s2) = [nextElem s]"
    using activeTabs_activated[OF ids dist mem] by (simp add: activeTabs_def s2(3) entry_def)
  have res: "openPdfInTab f u t s = Returned (persistStateToSession s2)"
    by (simp add: unfold s2(1))
  show ?thesis
    apply (rule exI[of _ n])
    apply (rule exI[of _ "persistStateToSession s2"])
    using n res act
    by (simp add: persist_fields activeTabs_persist s2 s1_def entry_def lbl_def el_def
        ownKeys_append_nonindex suffixed_not_index tabId_addActive tabId_clearActive)
qed

subsection \<open>Closing a tab\<close>

lemma set_ownKeys: "set (ownKeys obj) = fst ` set obj"
  by (auto simp: ownKeys_def Let_def)

lemma ownKeys_Nil: "(ownKeys obj = []) = (obj = [])"
  using set_ownKeys[of obj] by (cases obj) (auto simp del: set_ownKeys)

lemma deleteProp_filter: "deleteProp obj k = filter (\<lambda>p. fst p \<noteq> k) obj"
  unfolding deleteProp_def by (induction obj) auto

lemma map_of_in_set: "distinct (map fst obj) \<Longrightarrow> (map_of obj k = Some e) = ((k, e) \<in> set obj)"
  by (simp add: map_of_eq_Some_iff)

lemma entryTabs_deleteProp:
  assumes "distinct (map fst obj)" and "map_of obj k = Some e" and "distinct (entryTabs obj)"
  shows "set (entryTabs (deleteProp obj k)) = set (entryTabs obj) - {tab e}"
    and "distinct (entryTabs (deleteProp obj k))"
proof -
  show "distinct (entryTabs (deleteProp obj k))"
    using assms(3) by (simp add: entryTabs_def deleteProp_filter distinct_map_filter)
  have mem: "(k, e) \<in> set obj" using assms(1,2) by (simp add: map_of_in_set)
  have uniq: "\<And>p. p \<in> set obj \<Longrightarrow> fst p = k \<Longrightarrow> p = (k, e)"
    using assms(1) mem by (metis eq_key_imp_eq_value prod.collapse)
  have inj: "inj_on (\<lambda>(k, e). tab e) (set obj)"
    using assms(3) by (simp add: entryTabs_def distinct_map)
  show "set (entryTabs (deleteProp obj k)) = set (entryTabs obj) - {tab e}"
  proof (rule set_eqI)
    fix i
    show "(i \<in> set (entryTabs (deleteProp obj k))) = (i \<in> set (entryTabs obj) - {tab e})"
    proof
      assume "i \<in> set (entryTabs (deleteProp obj k))"
      then obtain p where p: "p \<in> set obj" "fst p \<noteq> k" "i = (\<lambda>(k, e). tab e) p"
        by (auto simp: entryTabs_def deleteProp_filter)
      have "i \<noteq> tab e"
      proof
        assume "i = tab e"
        then have "(\<lambda>(k, e). tab e) p = (\<lambda>(k, e). tab e) (k, e)" using p(3) by simp
        then have "p = (k, e)" using inj p(1) mem by (meson inj_onD)
        then show False using p(2) by simp
      qed
      then show "i \<in> set (entryTabs obj) - {tab e}" using p by (auto simp: entryTabs_def)
    next
      assume "i \<in> set (entryTabs obj) - {tab e}"
      then obtain p where p: "p \<in> set obj" "i = (\<lambda>(k, e). tab e) p" "i \<noteq> tab e"
        by (auto simp: entryTabs_def)
      have "fst p \<noteq> k"
      proof
        assume "fst p = k"
        then have "p = (k, e)" by (rule uniq[OF p(1)])
        then show False using p(2,3) by simp
      qed
      then show "i \<in> set (entryTabs (deleteProp obj k))"
        using p by (auto simp: entryTabs_def deleteProp_filter)
    qed
  qed
qed

lemma tabId_removeEl: "map tabId (removeEl i els) = filter (\<lambda>x. x \<noteq> i) (map tabId els)"
  by (induction els) (simp_all add: removeEl_def)

lemma tabsWf_delete:
  assumes wf: "tabsWf s" and own: "map_of (openPdfs s) k = Some e"
  shows "tabsWf (s\<lparr>pdfTabs := removeEl (tab e) (pdfTabs s), openPdfs := deleteProp (openPdfs s) k\<rparr>)"
proof -
  have d: "distinct (map fst (openPdfs s))" "distinct (entryTabs (openPdfs s))"
    using wf by (simp_all add: tabsWf_def)
  have "set (map tabId (removeEl (tab e) (pdfTabs s))) = set (entryTabs (openPdfs s)) - {tab e}"
    using wf by (auto simp: tabId_removeEl tabsWf_def)
  then show ?thesis
    using wf entryTabs_deleteProp[OF d(1) own d(2)]
    by (auto simp: tabsWf_def keys_deleteProp tabId_removeEl list_all_iff removeEl_def
        set_deleteProp distinct_map_filter)
qed

lemma tabsWf_cong:
  assumes "openPdfs s' = openPdfs s" and "map tabId (pdfTabs s') = map tabId (pdfTabs s)"
    and "nextElem s' = nextElem s"
  shows "tabsWf s' = tabsWf s"
proof -
  have "list_all (\<lambda>el. tabId el < n) els = list_all (\<lambda>i. i < n) (map tabId els)" for n and els :: "tabEl list"
    by (simp add: list_all_iff)
  then show ?thesis using assms by (simp add: tabsWf_def)
qed

lemma closeBtn_addActive: "map closeBtn (addActive i els) = map closeBtn els"
  by (induction els) (simp_all add: addActive_def)

lemma closeBtn_clearActive: "map closeBtn (clearActive obj els) = map closeBtn els"
  by (induction els) (simp_all add: clearActive_def)

lemma first_ownKey:
  "ownKeys obj = k # ks \<Longrightarrow> \<exists>e. map_of obj k = Some e"
proof -
  assume "ownKeys obj = k # ks"
  then have "k \<in> set (ownKeys obj)" by simp
  then have "k \<in> fst ` set obj" by (simp add: set_ownKeys)
  then show ?thesis by (simp add: own_key_iff)
qed

lemma blankViewer_fields:
  "openPdfs (blankViewer s) = openPdfs s" "pdfTabs (blankViewer s) = pdfTabs s"
  "nextElem (blankViewer s) = nextElem s" "activePdfKey (blankViewer s) = activePdfKey s"
  "pdfViewer (blankViewer s) = map_option (\<lambda>old. []) (pdfViewer s)"
  by (simp_all add: blankViewer_def)

lemma closePdfTab_own:
  assumes wf: "tabsWf s" and own: "map_of (openPdfs s) k = Some e"
  shows "\<exists>s'. closePdfTab k s = Returned s' \<and> tabsWf s'
     \<and> openPdfs s' = deleteProp (openPdfs s) k
     \<and> map tabId (pdfTabs s') = map tabId (removeEl (tab e) (pdfTabs s))
     \<and> map spanLabel (pdfTabs s') = map spanLabel (removeEl (tab e) (pdfTabs s))
     \<and> map closeBtn (pdfTabs s') = map closeBtn (removeEl (tab e) (pdfTabs s))
     \<and> (activePdfKey s = Some k \<longrightarrow>
          (case ownKeys (openPdfs s') of
             [] \<Rightarrow> activePdfKey s' = None \<and> pdfTabs s' = []
                   \<and> pdfViewer s' = map_option (\<lambda>old. []) (pdfViewer s)
           | k' # ks \<Rightarrow>
               \<exists>e'. map_of (openPdfs s') k' = Some e' \<and> activePdfKey s' = Some k'
                 \<and> map tabId (activeTabs s') = [tab e']
                 \<and> pdfViewer s' = map_option (\<lambda>old. buildPdfJsViewerUrl (url e') (pdfViewOpts (aimTitle e')))
                                    (pdfViewer s)))"
proof -
  define s1 where "s1 = s\<lparr>pdfTabs := removeEl (tab e) (pdfTabs s), openPdfs := deleteProp (openPdfs s) k\<rparr>"
  have wf1: "tabsWf s1" unfolding s1_def by (rule tabsWf_delete[OF wf own])
  have f1: "openPdfs s1 = deleteProp (openPdfs s) k" "pdfTabs s1 = removeEl (tab e) (pdfTabs s)"
    "activePdfKey s1 = activePdfKey s" "pdfViewer s1 = pdfViewer s" "nextElem s1 = nextElem s"
    by (simp_all add: s1_def)
  have eq: "closePdfTab k s =
     (if activePdfKey s1 = Some k
      then (case ownKeys (openPdfs s1) of
              k' # ks \<Rightarrow> andThen (activatePdfTab k' s1) (\<lambda>s2. Returned (persistStateToSession s2))
            | [] \<Rightarrow> Returned (persistStateToSession (blankViewer (s1\<lparr>activePdfKey := None\<rparr>))))
      else if ownKeys (openPdfs s1) = []
      then Returned (persistStateToSession (blankViewer (s1\<lparr>activePdfKey := None\<rparr>)))
      else Returned (persistStateToSession s1))"
    unfolding s1_def using own by (simp add: closePdfTab_def getProp_def Let_def)
  show ?thesis
  proof (cases "ownKeys (openPdfs s1)")
    case Nil
    then have empty: "openPdfs s1 = []" by (simp add: ownKeys_Nil)
    then have "set (map tabId (pdfTabs s1)) = {}"
      using wf1 by (simp add: tabsWf_def entryTabs_def)
    then have notabs: "pdfTabs s1 = []" by simp
    define s' where "s' = persistStateToSession (blankViewer (s1\<lparr>activePdfKey := None\<rparr>))"
    have r: "closePdfTab k s = Returned s'" by (simp add: eq Nil s'_def)
    have g: "openPdfs s' = openPdfs s1" "pdfTabs s' = pdfTabs s1" "nextElem s' = nextElem s1"
      "activePdfKey s' = None" "pdfViewer s' = map_option (\<lambda>old. []) (pdfViewer s)"
      by (simp_all add: s'_def persist_fields blankViewer_fields f1)
    have "tabsWf s'" using wf1 tabsWf_cong[of s' s1] g by simp
    then show ?thesis
      using r g f1 Nil notabs by (intro exI[of _ s']) simp
  next
    case (Cons k' ks)
    obtain e' where e': "map_of (openPdfs s1) k' = Some e'" using first_ownKey[OF Cons] by auto
    show ?thesis
    proof (cases "activePdfKey s = Some k")
      case False
      define s' where "s' = persistStateToSession s1"
      have "ownKeys (openPdfs s1) \<noteq> []" using Cons by simp
      then have r: "closePdfTab k s = Returned s'" using False by (simp add: eq s'_def f1(3))
      have g: "openPdfs s' = openPdfs s1" "pdfTabs s' = pdfTabs s1" "nextElem s' = nextElem s1"
        by (simp_all add: s'_def persist_fields)
      have "tabsWf s'" using wf1 tabsWf_cong[of s' s1] g by simp
      then show ?thesis using r g f1 False by (intro exI[of _ s']) simp
    next
      case True
      obtain s2 where s2: "activatePdfTab k' s1 = Returned s2" "activePdfKey s2 = Some k'"
        "pdfTabs s2 = addActive (tab e') (clearActive (openPdfs s1) (pdfTabs s1))"
        "pdfViewer s2 = map_option (\<lambda>old. buildPdfJsViewerUrl (url e') (pdfViewOpts (aimTitle e'))) (pdfViewer s1)"
        "openPdfs s2 = openPdfs s1" "nextElem s2 = nextElem s1"
        using activatePdfTab_own[OF e'] by auto
      define s' where "s' = persistStateToSession s2"
      have r: "closePdfTab k s = Returned s'" using True by (simp add: eq Cons s'_def f1(3) s2(1))
      have g: "openPdfs s' = openPdfs s1" "pdfTabs s' = pdfTabs s2" "nextElem s' = nextElem s1"
        "activePdfKey s' = Some k'" "pdfViewer s' = pdfViewer s2"
        by (simp_all add: s'_def persist_fields s2)
      have ids: "map tabId (pdfTabs s') = map tabId (pdfTabs s1)"
        by (simp add: g s2 tabId_addActive tabId_clearActive)
      have wf': "tabsWf s'" using wf1 tabsWf_cong[of s' s1] g ids by simp
      have sub: "set (map tabId (pdfTabs s1)) \<subseteq> set (entryTabs (openPdfs s1))"
        and dist: "distinct (map tabId (pdfTabs s1))"
        and seteq: "set (map tabId (pdfTabs s1)) = set (entryTabs (openPdfs s1))"
        using wf1 by (simp_all add: tabsWf_def)
      have "(k', e') \<in> set (openPdfs s1)" using e' by (rule map_of_SomeD)
      then have "tab e' \<in> set (entryTabs (openPdfs s1))" by (force simp: entryTabs_def)
      then have mem: "tab e' \<in> set (map tabId (pdfTabs s1))" using seteq by simp
      have act: "map tabId (activeTabs s') = [tab e']"
        using activeTabs_activated[OF sub dist mem] by (simp add: activeTabs_def g s2)
      show ?thesis
        using r wf' g f1 s2 act e' Cons ids
        by (intro exI[of _ s'])
           (simp add: spanLabel_addActive spanLabel_clearActive closeBtn_addActive closeBtn_clearActive)
    qed
  qed
qed

subsection \<open>Duplicates of one document\<close>

lemma entry_tabs_differ:
  assumes "tabsWf s" and "map_of (openPdfs s) k1 = Some e1" and "map_of (openPdfs s) k2 = Some e2"
    and "k1 \<noteq> k2"
  shows "tab e1 \<noteq> tab e2"
proof -
  have inj: "inj_on (\<lambda>(k, e). tab e) (set (openPdfs s))"
    using assms(1) by (simp add: tabsWf_def entryTabs_def distinct_map)
  have m: "(k1, e1) \<in> set (openPdfs s)" "(k2, e2) \<in> set (openPdfs s)"
    using assms(2,3) by (auto dest: map_of_SomeD)
  show ?thesis
  proof
    assume "tab e1 = tab e2"
    then have "(\<lambda>(k, e). tab e) (k1, e1) = (\<lambda>(k, e). tab e) (k2, e2)" by simp
    then have "(k1, e1) = (k2, e2)" using inj m by (meson inj_onD)
    then show False using assms(4) by simp
  qed
qed

text \<open>
  Claim C4. In a state of the shape \<open>tabsWf\<close>: when a tab with key \<open>f\<close> is open,
  \<open>openPdfInTab(f, url, title)\<close> returns with a new entry appended to \<open>openPdfs\<close>
  under the key \<open>f (n)\<close>, where \<open>n \<ge> 2\<close> is the smallest number whose key is not in
  use; the entry records the filename \<open>f\<close>, its label carries the same counter, and its
  tab element is the only one marked active. Closing one of two tabs with different
  keys (two duplicates of one filename among them) leaves the entry of the other under
  its key, with its label, and its element in the strip with its text.
\<close>

theorem openPdfInTab_duplicate_key:
  assumes "tabsWf s"
  shows "(f \<in> fst ` set (openPdfs s) \<longrightarrow>
          (\<exists>n s'. 2 \<le> n \<and> openPdfInTab f u t s = Returned s'
             \<and> (\<forall>m. 2 \<le> m \<and> m < n \<longrightarrow> suffixed f m \<in> fst ` set (openPdfs s))
             \<and> suffixed f n \<notin> fst ` set (openPdfs s)
             \<and> openPdfs s' = openPdfs s @
                  [(suffixed f n,
                    \<lparr>tab = nextElem s, url = u,
                     label = (if t \<noteq> [] \<and> trim t \<noteq> [] then trim t else f) @ '' ('' @ showNat n @ '')'',
                     filename = Some f,
                     aimTitle = (if t \<noteq> [] \<and> trim t \<noteq> [] then trim t else f)\<rparr>)]
             \<and> ownKeys (openPdfs s') = ownKeys (openPdfs s) @ [suffixed f n]
             \<and> activePdfKey s' = Some (suffixed f n)
             \<and> map tabId (activeTabs s') = [nextElem s]
             \<and> map tabId (pdfTabs s') = map tabId (pdfTabs s) @ [nextElem s]))
     \<and> (map_of (openPdfs s) k1 = Some e1 \<and> map_of (openPdfs s) k2 = Some e2 \<and> k1 \<noteq> k2 \<longrightarrow>
          (\<exists>s'. closePdfTab k1 s = Returned s'
             \<and> map_of (openPdfs s') k1 = None
             \<and> map_of (openPdfs s') k2 = Some e2
             \<and> tab e2 \<in> set (map tabId (pdfTabs s'))
             \<and> map tabId (pdfTabs s') = map tabId (removeEl (tab e1) (pdfTabs s))
             \<and> map spanLabel (pdfTabs s') = map spanLabel (removeEl (tab e1) (pdfTabs s))))"
proof (intro conjI impI)
  assume "f \<in> fst ` set (openPdfs s)"
  then show "\<exists>n s'. 2 \<le> n \<and> openPdfInTab f u t s = Returned s'
             \<and> (\<forall>m. 2 \<le> m \<and> m < n \<longrightarrow> suffixed f m \<in> fst ` set (openPdfs s))
             \<and> suffixed f n \<notin> fst ` set (openPdfs s)
             \<and> openPdfs s' = openPdfs s @
                  [(suffixed f n,
                    \<lparr>tab = nextElem s, url = u,
                     label = (if t \<noteq> [] \<and> trim t \<noteq> [] then trim t else f) @ '' ('' @ showNat n @ '')'',
                     filename = Some f,
                     aimTitle = (if t \<noteq> [] \<and> trim t \<noteq> [] then trim t else f)\<rparr>)]
             \<and> ownKeys (openPdfs s') = ownKeys (openPdfs s) @ [suffixed f n]
             \<and> activePdfKey s' = Some (suffixed f n)
             \<and> map tabId (activeTabs s') = [nextElem s]
             \<and> map tabId (pdfTabs s') = map tabId (pdfTabs s) @ [nextElem s]"
    by (rule openPdfInTab_duplicate[OF assms])
next
  assume a: "map_of (openPdfs s) k1 = Some e1 \<and> map_of (openPdfs s) k2 = Some e2 \<and> k1 \<noteq> k2"
  obtain s' where s': "closePdfTab k1 s = Returned s'" "openPdfs s' = deleteProp (openPdfs s) k1"
    "map tabId (pdfTabs s') = map tabId (removeEl (tab e1) (pdfTabs s))"
    "map spanLabel (pdfTabs s') = map spanLabel (removeEl (tab e1) (pdfTabs s))"
    using closePdfTab_own[OF assms, of k1 e1] a by auto
  have ne: "tab e1 \<noteq> tab e2" using entry_tabs_differ[OF assms, of k1 e1 k2 e2] a by simp
  have "(k2, e2) \<in> set (openPdfs s)" using a by (auto dest: map_of_SomeD)
  then have "tab e2 \<in> set (entryTabs (openPdfs s))" by (force simp: entryTabs_def)
  then have "tab e2 \<in> set (map tabId (pdfTabs s))" using assms by (simp add: tabsWf_def)
  then have "tab e2 \<in> set (map tabId (pdfTabs s'))"
    using ne by (simp add: s'(3) tabId_removeEl)
  then show "\<exists>s'. closePdfTab k1 s = Returned s'
             \<and> map_of (openPdfs s') k1 = None
             \<and> map_of (openPdfs s') k2 = Some e2
             \<and> tab e2 \<in> set (map tabId (pdfTabs s'))
             \<and> map tabId (pdfTabs s') = map tabId (removeEl (tab e1) (pdfTabs s))
             \<and> map spanLabel (pdfTabs s') = map spanLabel (removeEl (tab e1) (pdfTabs s))"
    using s' a by (intro exI[of _ s']) (auto simp: map_of_deleteProp)
qed

lemma demoTwoTabs_wf: "tabsWf demoTwoTabs"
  by (simp add: demoTwoTabs_def demoApp_def tabsWf_def entryTabs_def protoKeys_def)

theorem openPdfInTab_duplicate_key_witness:
  "tabsWf demoTwoTabs \<and> ''a.pdf'' \<in> fst ` set (openPdfs demoTwoTabs)
   \<and> map fst (openPdfs (stateOf (openPdfInTab ''a.pdf'' ''/static/pdfs/1920s/a.pdf'' ''Report A'' demoTwoTabs)))
       = [''a.pdf'', ''a.pdf (2)'', ''a.pdf (3)'']
   \<and> map active (pdfTabs (stateOf (openPdfInTab ''a.pdf'' ''/static/pdfs/1920s/a.pdf'' ''Report A'' demoTwoTabs)))
       = [False, False, True]
   \<and> map_of (openPdfs demoTwoTabs) ''a.pdf'' \<noteq> None
   \<and> map_of (openPdfs demoTwoTabs) ''a.pdf (2)'' \<noteq> None
   \<and> (\<exists>s'. closePdfTab ''a.pdf'' demoTwoTabs = Returned s'
         \<and> map_of (openPdfs s') ''a.pdf (2)'' = map_of (openPdfs demoTwoTabs) ''a.pdf (2)''
         \<and> map spanLabel (pdfTabs s') = [''Report A (2)''])"
proof -
  have o: "map_of (openPdfs demoTwoTabs) ''a.pdf'' =
      Some \<lparr>tab = 0, url = ''/static/pdfs/1920s/a.pdf'', label = ''Report A'',
            filename = Some ''a.pdf'', aimTitle = ''Report A''\<rparr>"
    "map_of (openPdfs demoTwoTabs) ''a.pdf (2)'' =
      Some \<lparr>tab = 1, url = ''/static/pdfs/1920s/a.pdf'', label = ''Report A (2)'',
            filename = Some ''a.pdf'', aimTitle = ''Report A''\<rparr>"
    by (simp_all add: demoTwoTabs_def demoApp_def)
  have k: "''a.pdf'' \<in> fst ` set (openPdfs demoTwoTabs)"
    by (simp add: demoTwoTabs_def demoApp_def)
  have run: "map fst (openPdfs (stateOf (openPdfInTab ''a.pdf'' ''/static/pdfs/1920s/a.pdf'' ''Report A'' demoTwoTabs)))
       = [''a.pdf'', ''a.pdf (2)'', ''a.pdf (3)'']"
    "map active (pdfTabs (stateOf (openPdfInTab ''a.pdf'' ''/static/pdfs/1920s/a.pdf'' ''Report A'' demoTwoTabs)))
       = [False, False, True]"
    by (simp_all add: demo_defs)
  have labels: "map spanLabel (removeEl 0 (pdfTabs demoTwoTabs)) = [''Report A (2)'']"
    by (simp add: demoTwoTabs_def demoApp_def removeEl_def)
  define e1 where "e1 = \<lparr>tab = 0, url = ''/static/pdfs/1920s/a.pdf'', label = ''Report A'',
            filename = Some ''a.pdf'', aimTitle = ''Report A''\<rparr>"
  define e2 where "e2 = \<lparr>tab = 1, url = ''/static/pdfs/1920s/a.pdf'', label = ''Report A (2)'',
            filename = Some ''a.pdf'', aimTitle = ''Report A''\<rparr>"
  have hyp: "map_of (openPdfs demoTwoTabs) ''a.pdf'' = Some e1 \<and>
      map_of (openPdfs demoTwoTabs) ''a.pdf (2)'' = Some e2 \<and> ''a.pdf'' \<noteq> ''a.pdf (2)''"
    using o by (simp add: e1_def e2_def)
  from openPdfInTab_duplicate_key[OF demoTwoTabs_wf, where ?k1.0 = "''a.pdf''"
      and ?k2.0 = "''a.pdf (2)''" and ?e1.0 = e1 and ?e2.0 = e2, THEN conjunct2, rule_format, OF hyp]
  obtain s' where s': "closePdfTab ''a.pdf'' demoTwoTabs = Returned s'"
    "map_of (openPdfs s') ''a.pdf (2)'' = Some e2"
    "map spanLabel (pdfTabs s') = map spanLabel (removeEl (tab e1) (pdfTabs demoTwoTabs))"
    by auto
  have "\<exists>s'. closePdfTab ''a.pdf'' demoTwoTabs = Returned s'
         \<and> map_of (openPdfs s') ''a.pdf (2)'' = map_of (openPdfs demoTwoTabs) ''a.pdf (2)''
         \<and> map spanLabel (pdfTabs s') = [''Report A (2)'']"
    using s' hyp labels by (intro exI[of _ s']) (simp add: e1_def)
  then show ?thesis using demoTwoTabs_wf k run o by simp
qed

subsection \<open>Restoring overlays\<close>

lemma firstIndex_Some: "firstIndex P xs = Some i \<Longrightarrow> i < length xs \<and> P (xs ! i)"
proof (induction xs arbitrary: i)
  case Nil
  then show ?case by simp
next
  case (Cons x xs)
  show ?case
  proof (cases "P x")
    case True
    then show ?thesis using Cons.prems by simp
  next
    case False
    then obtain j where j: "firstIndex P xs = Some j" "i = Suc j"
      using Cons.prems by (auto split: option.splits)
    then show ?thesis using Cons.IH[OF j(1)] by simp
  qed
qed

lemma firstIndex_exists: "\<exists>x \<in> set xs. P x \<Longrightarrow> \<exists>i. firstIndex P xs = Some i"
  by (induction xs) auto

lemma findCheckbox_dataId:
  assumes "ident \<in> dataId ` set cbs"
  shows "\<exists>i. findCheckbox cbs ident = Some i \<and> i < length cbs \<and> dataId (cbs ! i) = ident"
proof -
  have "\<exists>x \<in> set cbs. dataId x = ident" using assms by auto
  then obtain i where i: "firstIndex (\<lambda>c. dataId c = ident) cbs = Some i"
    using firstIndex_exists[of cbs "\<lambda>c. dataId c = ident"] by auto
  then show ?thesis using firstIndex_Some[OF i] by (simp add: findCheckbox_def)
qed

lemma enableLayer_tabs:
  "openPdfs (enableLayer i s) = openPdfs s" "pdfTabs (enableLayer i s) = pdfTabs s"
  "activePdfKey (enableLayer i s) = activePdfKey s" "pdfViewer (enableLayer i s) = pdfViewer s"
  "nextElem (enableLayer i s) = nextElem s" "checkboxes (enableLayer i s) = checkboxes s"
  "archiveData (enableLayer i s) = archiveData s" "storageOk (enableLayer i s) = storageOk s"
  by (simp_all add: enableLayer_def Let_def split: lookup.splits runtime.splits)

lemma removeLayer_tabs:
  "openPdfs (removeLayer i s) = openPdfs s" "pdfTabs (removeLayer i s) = pdfTabs s"
  "activePdfKey (removeLayer i s) = activePdfKey s" "pdfViewer (removeLayer i s) = pdfViewer s"
  "nextElem (removeLayer i s) = nextElem s" "checkboxes (removeLayer i s) = checkboxes s"
  "archiveData (removeLayer i s) = archiveData s" "storageOk (removeLayer i s) = storageOk s"
  by (simp_all add: removeLayer_def split: lookup.splits runtime.splits)

lemma changeHandler_tabs:
  "openPdfs (changeHandler i s) = openPdfs s" "pdfTabs (changeHandler i s) = pdfTabs s"
  "activePdfKey (changeHandler i s) = activePdfKey s" "pdfViewer (changeHandler i s) = pdfViewer s"
  "nextElem (changeHandler i s) = nextElem s" "checkboxes (changeHandler i s) = checkboxes s"
  "archiveData (changeHandler i s) = archiveData s" "storageOk (changeHandler i s) = storageOk s"
  by (simp_all add: changeHandler_def Let_def persist_fields enableLayer_tabs removeLayer_tabs)

lemma restoreLayer_tabs:
  "openPdfs (restoreLayer s i) = openPdfs s" "pdfTabs (restoreLayer s i) = pdfTabs s"
  "activePdfKey (restoreLayer s i) = activePdfKey s" "pdfViewer (restoreLayer s i) = pdfViewer s"
  "nextElem (restoreLayer s i) = nextElem s"
  "archiveData (restoreLayer s i) = archiveData s" "storageOk (restoreLayer s i) = storageOk s"
  by (simp_all add: restoreLayer_def changeHandler_tabs split: option.splits)

lemma restoreLayers_tabs:
  "openPdfs (foldl restoreLayer s ids) = openPdfs s" "pdfTabs (foldl restoreLayer s ids) = pdfTabs s"
  "activePdfKey (foldl restoreLayer s ids) = activePdfKey s"
  "pdfViewer (foldl restoreLayer s ids) = pdfViewer s"
  "nextElem (foldl restoreLayer s ids) = nextElem s"
  "archiveData (foldl restoreLayer s ids) = archiveData s"
  "storageOk (foldl restoreLayer s ids) = storageOk s"
  by (induction ids arbitrary: s) (simp_all add: restoreLayer_tabs)

lemma restoreLayer_checkboxes:
  assumes "findCheckbox (checkboxes s) ident = Some i"
  shows "checkboxes (restoreLayer s ident) = (checkboxes s)[i := (checkboxes s ! i)\<lparr>checked := True\<rparr>]"
proof (cases "checked (checkboxes s ! i)")
  case True
  then have "(checkboxes s ! i)\<lparr>checked := True\<rparr> = checkboxes s ! i" by simp
  then have "(checkboxes s)[i := (checkboxes s ! i)\<lparr>checked := True\<rparr>] = checkboxes s"
    by (simp only: list_update_id)
  then show ?thesis using assms True by (simp add: restoreLayer_def)
next
  case False
  then show ?thesis using assms by (simp add: restoreLayer_def changeHandler_tabs)
qed

lemma enabledIds_check:
  assumes "i < length (checkboxes s)" and "dataId (checkboxes s ! i) = ident" and "ident \<noteq> []"
    and "checkboxes s' = (checkboxes s)[i := (checkboxes s ! i)\<lparr>checked := True\<rparr>]"
  shows "enabledIds s' = insert ident (enabledIds s)"
proof -
  let ?cbs = "checkboxes s"
  let ?c = "(?cbs ! i)\<lparr>checked := True\<rparr>"
  have pid: "persistedId ?c = ident" using assms(2,3) by (simp add: persistedId_def)
  have pid0: "persistedId (?cbs ! i) = ident" using assms(2,3) by (simp add: persistedId_def)
  have E: "enabledIds t = {persistedId c | c. c \<in> set (checkboxes t) \<and> persistedId c \<noteq> [] \<and> checked c}" for t
    by (auto simp: enabledIds_def)
  show ?thesis
  proof (rule set_eqI, rule iffI)
    fix x assume "x \<in> enabledIds s'"
    then obtain c where c: "c \<in> set (?cbs[i := ?c])" "persistedId c \<noteq> []" "checked c" "x = persistedId c"
      by (auto simp: E assms(4))
    from c(1) have "c = ?c \<or> c \<in> set ?cbs" using set_update_subset_insert[of ?cbs i ?c] by auto
    then show "x \<in> insert ident (enabledIds s)"
      using c pid by (auto simp: E)
  next
    fix x assume x: "x \<in> insert ident (enabledIds s)"
    have mem: "?c \<in> set (?cbs[i := ?c])" using assms(1) by (rule set_update_memI)
    show "x \<in> enabledIds s'"
    proof (cases "x = ident")
      case True
      then show ?thesis using mem pid assms(3) by (force simp: E assms(4))
    next
      case False
      then obtain c where c: "c \<in> set ?cbs" "persistedId c \<noteq> []" "checked c" "x = persistedId c"
        using x by (auto simp: E)
      then obtain j where j: "j < length ?cbs" "?cbs ! j = c" by (auto simp: in_set_conv_nth)
      have "j \<noteq> i" using j c(4) False pid0 by auto
      then have "(?cbs[i := ?c]) ! j = c" using j by simp
      then have "c \<in> set (?cbs[i := ?c])" using j(1) by (metis length_list_update nth_mem)
      then show ?thesis using c by (auto simp: E assms(4))
    qed
  qed
qed

lemma dataId_update:
  "map dataId (cbs[i := (cbs ! i)\<lparr>checked := True\<rparr>]) = map dataId cbs"
proof -
  have "map dataId (cbs[i := (cbs ! i)\<lparr>checked := True\<rparr>]) = (map dataId cbs)[i := dataId (cbs ! i)]"
    by (simp add: map_update)
  also have "\<dots> = map dataId (cbs[i := cbs ! i])" by (simp only: map_update)
  also have "\<dots> = map dataId cbs" by (simp only: list_update_id)
  finally show ?thesis .
qed

lemma restoreLayer_known:
  assumes "ident \<in> dataId ` set (checkboxes s)" and "ident \<noteq> []"
  shows "enabledIds (restoreLayer s ident) = insert ident (enabledIds s)"
    and "map dataId (checkboxes (restoreLayer s ident)) = map dataId (checkboxes s)"
proof -
  obtain i where i: "findCheckbox (checkboxes s) ident = Some i" "i < length (checkboxes s)"
    "dataId (checkboxes s ! i) = ident"
    using findCheckbox_dataId[OF assms(1)] by auto
  show "enabledIds (restoreLayer s ident) = insert ident (enabledIds s)"
    using enabledIds_check[OF i(2,3) assms(2) restoreLayer_checkboxes[OF i(1)]] .
  show "map dataId (checkboxes (restoreLayer s ident)) = map dataId (checkboxes s)"
    by (simp add: restoreLayer_checkboxes[OF i(1)] dataId_update)
qed

lemma restoreLayers_known:
  assumes "\<forall>ident \<in> set ids. ident \<in> dataId ` set (checkboxes s) \<and> ident \<noteq> []"
  shows "enabledIds (foldl restoreLayer s ids) = enabledIds s \<union> set ids"
  using assms
proof (induction ids arbitrary: s)
  case Nil
  show ?case by simp
next
  case (Cons a ids)
  have a: "a \<in> dataId ` set (checkboxes s)" "a \<noteq> []" using Cons.prems by simp_all
  have same: "dataId ` set (checkboxes (restoreLayer s a)) = dataId ` set (checkboxes s)"
    using restoreLayer_known(2)[OF a] by (metis set_map)
  have "enabledIds (foldl restoreLayer (restoreLayer s a) ids) = enabledIds (restoreLayer s a) \<union> set ids"
    using Cons.prems same by (intro Cons.IH) simp
  then show ?case using restoreLayer_known(1)[OF a] by simp
qed

subsection \<open>Restoring tabs\<close>

lemma restoreTab_other:
  "activePdfKey (restoreTab s t) = activePdfKey s" "pdfViewer (restoreTab s t) = pdfViewer s"
  "checkboxes (restoreTab s t) = checkboxes s" "archiveData (restoreTab s t) = archiveData s"
  "aim_session (restoreTab s t) = aim_session s" "storageOk (restoreTab s t) = storageOk s"
  "mapLayers (restoreTab s t) = mapLayers s" "overlays (restoreTab s t) = overlays s"
  by (simp_all add: restoreTab_def)

lemma restoreTabs_other:
  "activePdfKey (foldl restoreTab s ts) = activePdfKey s"
  "pdfViewer (foldl restoreTab s ts) = pdfViewer s"
  "checkboxes (foldl restoreTab s ts) = checkboxes s"
  "archiveData (foldl restoreTab s ts) = archiveData s"
  "aim_session (foldl restoreTab s ts) = aim_session s"
  "storageOk (foldl restoreTab s ts) = storageOk s"
  "mapLayers (foldl restoreTab s ts) = mapLayers s"
  "overlays (foldl restoreTab s ts) = overlays s"
  by (induction ts arbitrary: s) (simp_all add: restoreTab_other)

lemma restoreTab_fresh:
  assumes "\<not> truthyProp (getProp (openPdfs s) (st_filename t))"
  shows "openPdfs (restoreTab s t) = openPdfs s @ restoredEntries (archiveData s) (nextElem s) [t]"
    and "pdfTabs (restoreTab s t) = pdfTabs s @ restoredEls (archiveData s) (nextElem s) [t]"
    and "nextElem (restoreTab s t) = Suc (nextElem s)"
proof -
  have "st_filename t \<notin> fst ` set (openPdfs s)" using assms by (simp add: truthy_getProp)
  then show "openPdfs (restoreTab s t) = openPdfs s @ restoredEntries (archiveData s) (nextElem s) [t]"
    using assms by (simp add: restoreTab_def setProp_fresh)
  show "pdfTabs (restoreTab s t) = pdfTabs s @ restoredEls (archiveData s) (nextElem s) [t]"
    using assms by (simp add: restoreTab_def)
  show "nextElem (restoreTab s t) = Suc (nextElem s)"
    using assms by (simp add: restoreTab_def)
qed

lemma restoreTabs_fresh:
  assumes "distinct (map st_filename ts)"
    and "\<forall>t \<in> set ts. \<not> truthyProp (getProp (openPdfs s) (st_filename t))"
  shows "openPdfs (foldl restoreTab s ts) = openPdfs s @ restoredEntries (archiveData s) (nextElem s) ts
       \<and> pdfTabs (foldl restoreTab s ts) = pdfTabs s @ restoredEls (archiveData s) (nextElem s) ts
       \<and> nextElem (foldl restoreTab s ts) = nextElem s + length ts"
  using assms
proof (induction ts arbitrary: s)
  case Nil
  show ?case by simp
next
  case (Cons t ts)
  have ft: "\<not> truthyProp (getProp (openPdfs s) (st_filename t))" using Cons.prems(2) by simp
  note step = restoreTab_fresh[OF ft]
  have keys1: "fst ` set (openPdfs (restoreTab s t)) = insert (st_filename t) (fst ` set (openPdfs s))"
    by (simp add: step(1))
  have "\<forall>x \<in> set ts. \<not> truthyProp (getProp (openPdfs (restoreTab s t)) (st_filename x))"
  proof
    fix x assume x: "x \<in> set ts"
    then have "st_filename x \<in> st_filename ` set ts" by (rule imageI)
    then have "st_filename x \<noteq> st_filename t" using Cons.prems(1) by auto
    moreover have "\<not> truthyProp (getProp (openPdfs s) (st_filename x))" using Cons.prems(2) x by simp
    ultimately show "\<not> truthyProp (getProp (openPdfs (restoreTab s t)) (st_filename x))"
      by (simp add: truthy_getProp keys1)
  qed
  then have "openPdfs (foldl restoreTab (restoreTab s t) ts)
        = openPdfs (restoreTab s t) @ restoredEntries (archiveData (restoreTab s t)) (nextElem (restoreTab s t)) ts
       \<and> pdfTabs (foldl restoreTab (restoreTab s t) ts)
        = pdfTabs (restoreTab s t) @ restoredEls (archiveData (restoreTab s t)) (nextElem (restoreTab s t)) ts
       \<and> nextElem (foldl restoreTab (restoreTab s t) ts) = nextElem (restoreTab s t) + length ts"
    using Cons.prems(1) by (intro Cons.IH) simp_all
  then show ?case by (simp add: step restoreTab_other)
qed

lemma keys_restoredEntries: "map fst (restoredEntries ar n ts) = map st_filename ts"
  by (induction ts arbitrary: n) simp_all


lemma tabId_restoredEls: "map tabId (restoredEls ar n ts) = [n ..< n + length ts]"
  by (induction ts arbitrary: n) (simp_all add: upt_rec)

lemma active_restoredEls: "map active (restoredEls ar n ts) = map (\<lambda>t. False) ts"
  by (induction ts arbitrary: n) simp_all

subsection \<open>Key order and the persisted record\<close>






subsection \<open>Restore after a reload\<close>

lemma enabledIds_cong: "checkboxes a = checkboxes b \<Longrightarrow> enabledIds a = enabledIds b"
  by (simp add: enabledIds_def)

lemma clearActive_inactive:
  "list_all (\<lambda>el. \<not> active el) els \<Longrightarrow> clearActive obj els = els"
  by (induction els) (simp_all add: clearActive_def)

lemma restoredEls_inactive: "list_all (\<lambda>el. \<not> active el) (restoredEls ar n ts)"
  by (induction ts arbitrary: n) simp_all

lemma addActive_below: "n < m \<Longrightarrow> addActive n (restoredEls ar m ts) = restoredEls ar m ts"
  by (induction ts arbitrary: m) (simp_all add: addActive_def)

lemma active_first_restored:
  "map active (addActive n (clearActive obj (restoredEls ar n (t # ts)))) = True # map (\<lambda>t. False) ts"
proof -
  have "clearActive obj (restoredEls ar n (t # ts)) = restoredEls ar n (t # ts)"
    by (rule clearActive_inactive) (rule restoredEls_inactive)
  moreover have "addActive n (restoredEls ar (Suc n) ts) = restoredEls ar (Suc n) ts"
    by (rule addActive_below) simp
  moreover have "addActive n (x # xs) = (if tabId x = n then x\<lparr>active := True\<rparr> else x) # addActive n xs"
    for x xs by (simp add: addActive_def)
  ultimately show ?thesis by (simp add: active_restoredEls)
qed

lemma reloadPage_fields:
  "openPdfs (reloadPage fb l s) = []" "pdfTabs (reloadPage fb l s) = []"
  "activePdfKey (reloadPage fb l s) = None" "nextElem (reloadPage fb l s) = 0"
  "checkboxes (reloadPage fb l s) = startupCheckboxes fb"
  "aim_session (reloadPage fb l s) = aim_session s" "archiveData (reloadPage fb l s) = archiveData s"
  "pdfViewer (reloadPage fb l s) = map_option (\<lambda>old. []) (pdfViewer s)"
  by (simp_all add: reloadPage_def)

lemma restore_after_reload:
  assumes sess: "aim_session s0 = Some st"
    and dist: "distinct (map st_filename (openTabs st))"
    and np: "\<forall>t \<in> set (openTabs st). st_filename t \<notin> set protoKeys"
  shows "((\<forall>ident \<in> set (enabledLayers st).
              ident \<in> dataId ` set (startupCheckboxes fb) \<and> ident \<noteq> []) \<longrightarrow>
          enabledIds (restoreStateFromSession (reloadPage fb l s0))
           = enabledIds (reloadPage fb l s0) \<union> set (enabledLayers st))
    \<and> checkboxes (restoreStateFromSession (reloadPage fb l s0))
           = checkboxes (foldl restoreLayer (reloadPage fb l s0) (enabledLayers st))
    \<and> openPdfs (restoreStateFromSession (reloadPage fb l s0))
           = restoredEntries (archiveData s0) 0 (openTabs st)
    \<and> map tabId (pdfTabs (restoreStateFromSession (reloadPage fb l s0)))
           = [0 ..< length (openTabs st)]
    \<and> map spanLabel (pdfTabs (restoreStateFromSession (reloadPage fb l s0)))
           = map spanLabel (restoredEls (archiveData s0) 0 (openTabs st))
    \<and> map closeBtn (pdfTabs (restoreStateFromSession (reloadPage fb l s0)))
           = map closeBtn (restoredEls (archiveData s0) 0 (openTabs st))
    \<and> map active (pdfTabs (restoreStateFromSession (reloadPage fb l s0)))
           = (case openTabs st of [] \<Rightarrow> [] | t # ts \<Rightarrow> True # map (\<lambda>t. False) ts)
    \<and> activePdfKey (restoreStateFromSession (reloadPage fb l s0))
           = (case openTabs st of [] \<Rightarrow> None | t # ts \<Rightarrow> Some (st_filename t))
    \<and> pdfViewer (restoreStateFromSession (reloadPage fb l s0))
           = (case openTabs st of
                [] \<Rightarrow> map_option (\<lambda>old. []) (pdfViewer s0)
              | t # ts \<Rightarrow> map_option (\<lambda>old. buildPdfJsViewerUrl (st_url t)
                                         (pdfViewOpts (restoredTitle (archiveData s0) t)))
                           (pdfViewer s0))
    \<and> pdfTabs (restoreStateFromSession (reloadPage fb l s0))
           = (case openTabs st of
                [] \<Rightarrow> []
              | t # ts \<Rightarrow>
                  \<lparr>tabId = 0, spanLabel = restoredTitle (archiveData s0) t, active = True,
                   closeBtn = RestoredClose (st_filename t)\<rparr> #
                  restoredEls (archiveData s0) (Suc 0) ts)"
proof -
  define fresh where "fresh = reloadPage fb l s0"
  define s1 where "s1 = foldl restoreLayer fresh (enabledLayers st)"
  define s2 where "s2 = foldl restoreTab s1 (openTabs st)"
  have f1: "openPdfs s1 = []" "pdfTabs s1 = []" "activePdfKey s1 = None" "nextElem s1 = 0"
    "archiveData s1 = archiveData s0" "pdfViewer s1 = map_option (\<lambda>old. []) (pdfViewer s0)"
    by (simp_all add: s1_def fresh_def restoreLayers_tabs reloadPage_fields)
  have "enabledIds s1 = enabledIds fresh \<union> set (enabledLayers st)"
    if ids: "\<forall>ident \<in> set (enabledLayers st).
              ident \<in> dataId ` set (startupCheckboxes fb) \<and> ident \<noteq> []"
    unfolding s1_def using ids by (intro restoreLayers_known) (simp add: fresh_def reloadPage_fields)
  then have en1: "(\<forall>ident \<in> set (enabledLayers st).
              ident \<in> dataId ` set (startupCheckboxes fb) \<and> ident \<noteq> []) \<longrightarrow>
      enabledIds s1 = enabledIds fresh \<union> set (enabledLayers st)"
    by blast
  have free: "\<forall>t \<in> set (openTabs st). \<not> truthyProp (getProp (openPdfs s1) (st_filename t))"
    using np by (simp add: truthy_getProp f1)
  have f2: "openPdfs s2 = restoredEntries (archiveData s0) 0 (openTabs st)"
    "pdfTabs s2 = restoredEls (archiveData s0) 0 (openTabs st)"
    using restoreTabs_fresh[OF dist free] by (simp_all add: s2_def f1)
  have o2: "activePdfKey s2 = None" "pdfViewer s2 = map_option (\<lambda>old. []) (pdfViewer s0)"
    "checkboxes s2 = checkboxes s1"
    by (simp_all add: s2_def restoreTabs_other f1)
  have unfold: "restoreStateFromSession (reloadPage fb l s0) =
      (case openTabs st of [] \<Rightarrow> s1
       | first # rest \<Rightarrow> stateOf (activatePdfTab (st_filename first) s2))"
    unfolding s1_def s2_def fresh_def
    by (simp add: restoreStateFromSession_def reloadPage_fields sess Let_def)
  show ?thesis
  proof (cases "openTabs st")
    case Nil
    have "checkboxes s1 = checkboxes (foldl restoreLayer (reloadPage fb l s0) (enabledLayers st))"
      by (simp add: s1_def fresh_def)
    with Nil show ?thesis using en1 by (simp add: unfold f1 fresh_def)
  next
    case (Cons t ts)
    define e where "e = \<lparr>tab = 0, url = st_url t, label = restoredTitle (archiveData s0) t,
        filename = None, aimTitle = restoredTitle (archiveData s0) t\<rparr>"
    have look: "map_of (openPdfs s2) (st_filename t) = Some e" by (simp add: f2 Cons e_def)
    obtain s3 where s3: "activatePdfTab (st_filename t) s2 = Returned s3"
      "activePdfKey s3 = Some (st_filename t)"
      "pdfTabs s3 = addActive (tab e) (clearActive (openPdfs s2) (pdfTabs s2))"
      "pdfViewer s3 = map_option (\<lambda>old. buildPdfJsViewerUrl (url e) (pdfViewOpts (aimTitle e))) (pdfViewer s2)"
      "openPdfs s3 = openPdfs s2" "checkboxes s3 = checkboxes s2"
      using activatePdfTab_own[OF look] by auto
    have r: "restoreStateFromSession (reloadPage fb l s0) = s3" by (simp add: unfold Cons s3(1))
    have "enabledIds s3 = enabledIds s1" by (rule enabledIds_cong) (simp add: s3 o2)
    then have en: "(\<forall>ident \<in> set (enabledLayers st).
              ident \<in> dataId ` set (startupCheckboxes fb) \<and> ident \<noteq> []) \<longrightarrow>
        enabledIds s3 = enabledIds (reloadPage fb l s0) \<union> set (enabledLayers st)"
      using en1 by (simp add: fresh_def)
    have cb: "checkboxes s3 = checkboxes (foldl restoreLayer (reloadPage fb l s0) (enabledLayers st))"
      by (simp add: s3 o2 s1_def fresh_def)
    have act: "map active (pdfTabs s3) = True # map (\<lambda>t. False) ts"
      using active_first_restored[of 0 "openPdfs s2" "archiveData s0" t ts]
      by (simp add: s3(3) f2(2) Cons e_def)
    have tid: "map tabId (pdfTabs s3) = [0 ..< length (openTabs st)]"
      using tabId_restoredEls[of "archiveData s0" 0 "openTabs st"]
      by (simp add: s3(3) tabId_addActive tabId_clearActive f2(2))
    have lab: "map spanLabel (pdfTabs s3) = map spanLabel (restoredEls (archiveData s0) 0 (openTabs st))"
      by (simp add: s3(3) spanLabel_addActive spanLabel_clearActive f2(2))
    have btn: "map closeBtn (pdfTabs s3) = map closeBtn (restoredEls (archiveData s0) 0 (openTabs st))"
      by (simp add: s3(3) closeBtn_addActive closeBtn_clearActive f2(2))
    have vw: "pdfViewer s3 = map_option (\<lambda>old. buildPdfJsViewerUrl (st_url t)
                  (pdfViewOpts (restoredTitle (archiveData s0) t))) (pdfViewer s0)"
      by (simp add: s3(4) o2(2) e_def option.map_comp o_def)
    have "clearActive (openPdfs s2) (restoredEls (archiveData s0) 0 (t # ts))
        = restoredEls (archiveData s0) 0 (t # ts)"
      by (rule clearActive_inactive) (rule restoredEls_inactive)
    moreover have "addActive 0 (restoredEls (archiveData s0) (Suc 0) ts)
        = restoredEls (archiveData s0) (Suc 0) ts"
      by (rule addActive_below) simp
    moreover have "addActive 0 (x # xs) = (if tabId x = 0 then x\<lparr>active := True\<rparr> else x) # addActive 0 xs"
      for x xs by (simp add: addActive_def)
    ultimately have els: "pdfTabs s3 =
        \<lparr>tabId = 0, spanLabel = restoredTitle (archiveData s0) t, active = True,
         closeBtn = RestoredClose (st_filename t)\<rparr> # restoredEls (archiveData s0) (Suc 0) ts"
      by (simp add: s3(3) f2(2) Cons e_def)
    show ?thesis
      unfolding r using en cb act tid lab btn vw els s3(2,5) f2(1) Cons by simp
  qed
qed

subsection \<open>Persist, reload, restore\<close>

lemma demoStreetOff_reached:
  "changeHandler 0 (demoApp\<lparr>checkboxes := (checkboxes demoApp)[0 := (checkboxes demoApp ! 0)\<lparr>checked := False\<rparr>]\<rparr>)
     = demoStreetOff"
  by (simp add: demoStreetOff_def demoApp_def changeHandler_def removeLayer_def mapRemoveLayer_def
      getProp_def persistStateToSession_def startupCheckboxes_def persistedId_def ownKeys_def Let_def)

lemma demoTwoTabs_keys: "ownKeys (openPdfs demoTwoTabs) = [''a.pdf'', ''a.pdf (2)'']"
  by (simp add: demoTwoTabs_def demoApp_def ownKeys_def isArrayIndex_def isDigit_def)

subsection \<open>Closing the active tab\<close>

lemma demoRestored_fields:
  "openPdfs demoRestored =
     [(''a.pdf'', \<lparr>tab = 0, url = ''/static/pdfs/1920s/a.pdf'', label = ''Report A'',
                   filename = None, aimTitle = ''Report A''\<rparr>)]"
  "pdfTabs demoRestored =
     [\<lparr>tabId = 0, spanLabel = ''Report A'', active = True, closeBtn = RestoredClose ''a.pdf''\<rparr>]"
  "activePdfKey demoRestored = Some ''a.pdf''"
  "pdfViewer demoRestored =
     Some (buildPdfJsViewerUrl ''/static/pdfs/1920s/a.pdf'' (pdfViewOpts ''Report A''))"
  by (simp_all add: demoRestored_def demoOneTab_def demoApp_def reloadPage_def hybridBox_def
      restoreStateFromSession_def restoreLayer_def findCheckbox_def restoreTab_def
      restoredTitle_def findArchiveRowByFilename_def stripDupSuffix.simps matchesDupSuffix_def
      activatePdfTab_def getProp_def protoKeys_def setProp_def Let_def clearActive_def addActive_def
      trim_def isSpace_def isDigit_def startupCheckboxes_def ownKeys_def)

lemma restoredClose_last_tab:
  assumes "activePdfKey s = Some key" and "deleteProp (openPdfs s) key = []"
  shows "activePdfKey (stateOf (restoredCloseClick resolve el key s)) = Some key
       \<and> openPdfs (stateOf (restoredCloseClick resolve el key s)) = []"
  using assms
  by (cases "pdfViewer s")
     (simp_all add: restoredCloseClick_def Let_def persist_fields ownKeys_def)

lemma closePdfTab_active:
  assumes "tabsWf s" and "map_of (openPdfs s) k = Some e" and "activePdfKey s = Some k"
  shows "\<exists>s'. closePdfTab k s = Returned s' \<and> tabsWf s' \<and> k \<notin> fst ` set (openPdfs s')
     \<and> ((\<exists>k' e'. activePdfKey s' = Some k' \<and> map_of (openPdfs s') k' = Some e'
              \<and> map tabId (activeTabs s') = [tab e'])
         \<or> (openPdfs s' = [] \<and> pdfTabs s' = [] \<and> activePdfKey s' = None
              \<and> pdfViewer s' = map_option (\<lambda>old. []) (pdfViewer s)))"
proof -
  obtain s' where s': "closePdfTab k s = Returned s'" "tabsWf s'"
    "openPdfs s' = deleteProp (openPdfs s) k"
    "case ownKeys (openPdfs s') of
             [] \<Rightarrow> activePdfKey s' = None \<and> pdfTabs s' = []
                   \<and> pdfViewer s' = map_option (\<lambda>old. []) (pdfViewer s)
           | k' # ks \<Rightarrow>
               \<exists>e'. map_of (openPdfs s') k' = Some e' \<and> activePdfKey s' = Some k'
                 \<and> map tabId (activeTabs s') = [tab e']
                 \<and> pdfViewer s' = map_option (\<lambda>old. buildPdfJsViewerUrl (url e') (pdfViewOpts (aimTitle e')))
                                    (pdfViewer s)"
    using closePdfTab_own[OF assms(1,2)] assms(3) by auto
  have gone: "k \<notin> fst ` set (openPdfs s')" by (auto simp: s'(3) set_deleteProp)
  show ?thesis
  proof (cases "ownKeys (openPdfs s')")
    case Nil
    then have "openPdfs s' = []" by (simp add: ownKeys_Nil)
    then show ?thesis using s' gone Nil by (intro exI[of _ s']) simp
  next
    case (Cons k' ks)
    then show ?thesis using s' gone by (intro exI[of _ s']) auto
  qed
qed

text \<open>
  Claim C2 at the input that shows the defect. A page with the single tab \<open>a.pdf\<close> is
  reloaded and restored, and the close button of the restored tab is clicked. The
  handler installed by \<open>restoreStateFromSession\<close> deletes the entry and never assigns
  \<open>activePdfKey\<close>: no tab is left, and the active key still names the closed tab,
  whatever the address of the page is. (\<open>closePdfTab\<close>, the handler of a tab opened by
  \<open>openPdfInTab\<close>, clears the key in this situation: lemma \<open>closePdfTab_active\<close>.)
\<close>

theorem restored_close_keeps_stale_key:
  "map fst (openPdfs demoRestored) = [''a.pdf'']
   \<and> activePdfKey demoRestored = Some ''a.pdf''
   \<and> closeBtn (hd (pdfTabs demoRestored)) = RestoredClose ''a.pdf''
   \<and> openPdfs (stateOf (clickClose resolve (hd (pdfTabs demoRestored)) demoRestored)) = []
   \<and> activePdfKey (stateOf (clickClose resolve (hd (pdfTabs demoRestored)) demoRestored)) = Some ''a.pdf''"
proof -
  have d: "deleteProp (openPdfs demoRestored) ''a.pdf'' = []"
    by (simp add: demoRestored_fields deleteProp_def)
  show ?thesis
    using restoredClose_last_tab[OF demoRestored_fields(3) d, of resolve 0]
    by (simp add: demoRestored_fields clickClose_def)
qed

subsection \<open>A restored tab whose key is encoded in the viewer address\<close>

lemma restoredTitle_no_archive:
  "restoredTitle [] t =
     (if st_aimTitle t \<noteq> [] then st_aimTitle t
      else if st_label t \<noteq> [] then st_label t else st_filename t)"
  by (simp add: restoredTitle_def findArchiveRowByFilename_def ownKeys_def Let_def)

lemma str_includes_set: "str_includes s sub \<Longrightarrow> set sub \<subseteq> set s"
proof (induction s)
  case Nil
  then show ?case by simp
next
  case (Cons c cs)
  show ?case
  proof (cases "take (length sub) (c # cs) = sub")
    case True
    then have "set sub = set (take (length sub) (c # cs))" by simp
    then show ?thesis using set_take_subset[of "length sub" "c # cs"] by blast
  next
    case False
    then have "str_includes cs sub" using Cons.prems by simp
    then show ?thesis using Cons.IH by auto
  qed
qed

lemma spaced_url:
  "buildPdfJsViewerUrl ''/static/pdfs/1920s/Annual Report.pdf'' (pdfViewOpts ''Annual Report'') =
   ''pdfjs/web/viewer.html?file=%2Fstatic%2Fpdfs%2F1920s%2FAnnual+Report.pdf&aimTitle=Annual+Report#page=1&zoom=75&pagemode=none''"
  by code_simp

lemma demoSpaced_fields:
  "openPdfs demoSpaced =
     [(''Annual Report.pdf'', \<lparr>tab = 0, url = ''/static/pdfs/1920s/Annual Report.pdf'',
          label = ''Annual Report'', filename = None, aimTitle = ''Annual Report''\<rparr>),
      (''b.pdf'', \<lparr>tab = 1, url = ''/static/pdfs/1920s/b.pdf'',
          label = ''Report B'', filename = None, aimTitle = ''Report B''\<rparr>)]"
  "pdfTabs demoSpaced =
     [\<lparr>tabId = 0, spanLabel = ''Annual Report'', active = True,
       closeBtn = RestoredClose ''Annual Report.pdf''\<rparr>,
      \<lparr>tabId = 1, spanLabel = ''Report B'', active = False, closeBtn = RestoredClose ''b.pdf''\<rparr>]"
  "activePdfKey demoSpaced = Some ''Annual Report.pdf''"
  "pdfViewer demoSpaced =
     Some (buildPdfJsViewerUrl ''/static/pdfs/1920s/Annual Report.pdf'' (pdfViewOpts ''Annual Report''))"
proof -
  define st where "st = \<lparr>enabledLayers = [''Street Overlay''],
         openTabs = [\<lparr>st_filename = ''Annual Report.pdf'',
                      st_url = ''/static/pdfs/1920s/Annual Report.pdf'',
                      st_label = ''Annual Report'', st_aimTitle = ''Annual Report''\<rparr>,
                     \<lparr>st_filename = ''b.pdf'', st_url = ''/static/pdfs/1920s/b.pdf'',
                      st_label = ''Report B'', st_aimTitle = ''Report B''\<rparr>]\<rparr>"
  have sess: "aim_session demoSpacedSaved = Some st"
    by (simp add: demoSpacedSaved_def demoApp_def st_def)
  have dist: "distinct (map st_filename (openTabs st))" by (simp add: st_def)
  have np: "\<forall>t \<in> set (openTabs st). st_filename t \<notin> set protoKeys"
    by (simp add: st_def protoKeys_def)
  have ar: "archiveData demoSpacedSaved = []" "pdfViewer demoSpacedSaved = Some []"
    by (simp_all add: demoSpacedSaved_def demoApp_def)
  note R = restore_after_reload[OF sess dist np, of "[hybridBox]" "[0, 1]", folded demoSpaced_def]
  show "openPdfs demoSpaced =
     [(''Annual Report.pdf'', \<lparr>tab = 0, url = ''/static/pdfs/1920s/Annual Report.pdf'',
          label = ''Annual Report'', filename = None, aimTitle = ''Annual Report''\<rparr>),
      (''b.pdf'', \<lparr>tab = 1, url = ''/static/pdfs/1920s/b.pdf'',
          label = ''Report B'', filename = None, aimTitle = ''Report B''\<rparr>)]"
    using R by (simp add: ar st_def restoredTitle_no_archive)
  show "pdfTabs demoSpaced =
     [\<lparr>tabId = 0, spanLabel = ''Annual Report'', active = True,
       closeBtn = RestoredClose ''Annual Report.pdf''\<rparr>,
      \<lparr>tabId = 1, spanLabel = ''Report B'', active = False, closeBtn = RestoredClose ''b.pdf''\<rparr>]"
    using R by (simp add: ar st_def restoredTitle_no_archive)
  show "activePdfKey demoSpaced = Some ''Annual Report.pdf''"
    using R by (simp add: st_def)
  show "pdfViewer demoSpaced =
     Some (buildPdfJsViewerUrl ''/static/pdfs/1920s/Annual Report.pdf'' (pdfViewOpts ''Annual Report''))"
    using R by (simp add: ar st_def restoredTitle_no_archive)
qed


text \<open>
  With another tab left, the same handler looks for the raw key in \<open>pdfViewer.src\<close>.
  The address holds the key form-encoded (\<open>Annual+Report.pdf\<close>), so the test fails for a
  key with a space: no tab becomes active, the viewer keeps showing the closed document,
  and the active key names the closed tab.
\<close>

lemma restored_close_spaced_key:
  "map fst (openPdfs (stateOf (clickClose examplePage (hd (pdfTabs demoSpaced)) demoSpaced))) = [''b.pdf'']
   \<and> activeTabs (stateOf (clickClose examplePage (hd (pdfTabs demoSpaced)) demoSpaced)) = []
   \<and> pdfViewer (stateOf (clickClose examplePage (hd (pdfTabs demoSpaced)) demoSpaced)) = pdfViewer demoSpaced
   \<and> activePdfKey (stateOf (clickClose examplePage (hd (pdfTabs demoSpaced)) demoSpaced))
       = Some ''Annual Report.pdf''"
proof -
  let ?u = "buildPdfJsViewerUrl ''/static/pdfs/1920s/Annual Report.pdf'' (pdfViewOpts ''Annual Report'')"
  have "CHR '' '' \<notin> set (examplePage ?u)"
    by (simp add: spaced_url examplePage_def)
  then have "\<not> set ''Annual Report.pdf'' \<subseteq> set (examplePage ?u)" by auto
  then have no: "\<not> str_includes (examplePage ?u) ''Annual Report.pdf''"
    using str_includes_set by blast
  show ?thesis
    using no
    by (simp add: clickClose_def restoredCloseClick_def Let_def demoSpaced_fields persist_fields
        deleteProp_def removeEl_def activeTabs_def)
qed

subsection \<open>Replaying the persisted tabs through openPdfInTab\<close>

lemma openPdfInTab_free:
  assumes free: "\<not> truthyProp (getProp (openPdfs s) (st_filename t))"
  shows "\<exists>s'. openPdfInTab (st_filename t) (st_url t) (st_aimTitle t) s = Returned s'
     \<and> openPdfs s' = openPdfs s @ replayedEntries (nextElem s) [t]
     \<and> map tabId (pdfTabs s') = map tabId (pdfTabs s) @ [nextElem s]
     \<and> map spanLabel (pdfTabs s') = map spanLabel (pdfTabs s) @ [replayedTitle t]
     \<and> map closeBtn (pdfTabs s') = map closeBtn (pdfTabs s) @ [CallsClosePdfTab (st_filename t)]
     \<and> nextElem s' = Suc (nextElem s) \<and> checkboxes s' = checkboxes s
     \<and> (pdfViewer s' = None) = (pdfViewer s = None)"
proof -
  define e where "e = \<lparr>tab = nextElem s, url = st_url t, label = replayedTitle t,
      filename = Some (st_filename t), aimTitle = replayedTitle t\<rparr>"
  define s1 where "s1 = s\<lparr>pdfTabs := pdfTabs s @
        [\<lparr>tabId = nextElem s, spanLabel = replayedTitle t, active = False,
          closeBtn = CallsClosePdfTab (st_filename t)\<rparr>],
      nextElem := Suc (nextElem s),
      openPdfs := setProp (openPdfs s) (st_filename t) e\<rparr>"
  have fresh: "st_filename t \<notin> fst ` set (openPdfs s)"
    using free by (simp add: truthy_getProp)
  have o1: "openPdfs s1 = openPdfs s @ [(st_filename t, e)]"
    by (simp add: s1_def setProp_fresh[OF fresh])
  have look: "map_of (openPdfs s1) (st_filename t) = Some e"
    using map_of_append_fresh[OF fresh, of e "st_filename t"] by (simp add: o1 del: map_of_append)
  obtain s2 where s2: "activatePdfTab (st_filename t) s1 = Returned s2"
    "pdfTabs s2 = addActive (tab e) (clearActive (openPdfs s1) (pdfTabs s1))"
    "pdfViewer s2 = map_option (\<lambda>old. buildPdfJsViewerUrl (url e) (pdfViewOpts (aimTitle e))) (pdfViewer s1)"
    "openPdfs s2 = openPdfs s1" "nextElem s2 = nextElem s1" "checkboxes s2 = checkboxes s1"
    using activatePdfTab_own[OF look] by auto
  have run: "openPdfInTab (st_filename t) (st_url t) (st_aimTitle t) s
      = Returned (persistStateToSession s2)"
    unfolding openPdfInTab_def Let_def whileOpen_free[OF free]
    using s2(1) by (simp add: s1_def e_def replayedTitle_def)
  have "pdfViewer s1 = pdfViewer s" by (simp add: s1_def)
  then have vw: "(pdfViewer s2 = None) = (pdfViewer s = None)" by (simp add: s2(3))
  show ?thesis
    unfolding run
    by (simp add: persist_fields s2 o1 e_def vw tabId_addActive tabId_clearActive
        spanLabel_addActive spanLabel_clearActive closeBtn_addActive closeBtn_clearActive)
      (simp add: s1_def)
qed

lemma replayedEntries_append:
  "replayedEntries n (ts @ [t]) = replayedEntries n ts @ replayedEntries (n + length ts) [t]"
  by (induction ts arbitrary: n) simp_all

lemma keys_replayedEntries: "map fst (replayedEntries n ts) = map st_filename ts"
  by (induction ts arbitrary: n) simp_all

lemma entryTabs_replayedEntries: "entryTabs (replayedEntries n ts) = [n ..< n + length ts]"
  by (induction ts arbitrary: n) (simp_all add: entryTabs_def upt_rec)

lemma replayTabs_fresh:
  assumes "distinct (map st_filename ts)"
    and "\<forall>t \<in> set ts. \<not> truthyProp (getProp (openPdfs s) (st_filename t))"
  shows "\<exists>s'. replayTabs ts s = Returned s'
     \<and> openPdfs s' = openPdfs s @ replayedEntries (nextElem s) ts
     \<and> map tabId (pdfTabs s') = map tabId (pdfTabs s) @ [nextElem s ..< nextElem s + length ts]
     \<and> map spanLabel (pdfTabs s') = map spanLabel (pdfTabs s) @ map replayedTitle ts
     \<and> map closeBtn (pdfTabs s')
         = map closeBtn (pdfTabs s) @ map (\<lambda>t. CallsClosePdfTab (st_filename t)) ts
     \<and> nextElem s' = nextElem s + length ts \<and> checkboxes s' = checkboxes s
     \<and> (pdfViewer s' = None) = (pdfViewer s = None)"
  using assms
proof (induction ts arbitrary: s)
  case Nil
  then show ?case by simp
next
  case (Cons t ts)
  from Cons.prems have free: "\<not> truthyProp (getProp (openPdfs s) (st_filename t))" by simp
  obtain s1 where s1: "openPdfInTab (st_filename t) (st_url t) (st_aimTitle t) s = Returned s1"
    "openPdfs s1 = openPdfs s @ replayedEntries (nextElem s) [t]"
    "map tabId (pdfTabs s1) = map tabId (pdfTabs s) @ [nextElem s]"
    "map spanLabel (pdfTabs s1) = map spanLabel (pdfTabs s) @ [replayedTitle t]"
    "map closeBtn (pdfTabs s1) = map closeBtn (pdfTabs s) @ [CallsClosePdfTab (st_filename t)]"
    "nextElem s1 = Suc (nextElem s)" "checkboxes s1 = checkboxes s"
    "(pdfViewer s1 = None) = (pdfViewer s = None)"
    using openPdfInTab_free[OF free] by (elim exE conjE) (rule that)
  have d: "distinct (map st_filename ts)" using Cons.prems by simp
  have f: "\<forall>u \<in> set ts. \<not> truthyProp (getProp (openPdfs s1) (st_filename u))"
  proof
    fix u assume u: "u \<in> set ts"
    then have "st_filename u \<in> st_filename ` set ts" by (rule imageI)
    then have "st_filename u \<noteq> st_filename t" using Cons.prems(1) by auto
    moreover have "\<not> truthyProp (getProp (openPdfs s) (st_filename u))" using Cons.prems(2) u by simp
    ultimately show "\<not> truthyProp (getProp (openPdfs s1) (st_filename u))"
      by (simp add: truthy_getProp s1(2))
  qed
  obtain s' where s': "replayTabs ts s1 = Returned s'"
    "openPdfs s' = openPdfs s1 @ replayedEntries (nextElem s1) ts"
    "map tabId (pdfTabs s') = map tabId (pdfTabs s1) @ [nextElem s1 ..< nextElem s1 + length ts]"
    "map spanLabel (pdfTabs s') = map spanLabel (pdfTabs s1) @ map replayedTitle ts"
    "map closeBtn (pdfTabs s')
         = map closeBtn (pdfTabs s1) @ map (\<lambda>t. CallsClosePdfTab (st_filename t)) ts"
    "nextElem s' = nextElem s1 + length ts" "checkboxes s' = checkboxes s1"
    "(pdfViewer s' = None) = (pdfViewer s1 = None)"
    using Cons.IH[OF d f] by (elim exE conjE) (rule that)
  have run: "replayTabs (t # ts) s = Returned s'" by (simp add: s1(1) s'(1))
  have "[nextElem s ..< nextElem s + length (t # ts)]
      = nextElem s # [Suc (nextElem s) ..< Suc (nextElem s) + length ts]"
    by (simp add: upt_rec)
  then show ?case
    unfolding run by (intro exI[of _ s'] conjI) (simp_all add: s1(2-) s'(2-))
qed

lemma active_only:
  assumes "set (map tabId els) \<subseteq> set (entryTabs obj)"
  shows "map active (addActive i (clearActive obj els)) = map (\<lambda>el. tabId el = i) els"
  using assms by (induction els) (auto simp: addActive_def clearActive_def entryTabs_def)

lemma first_of_range: "map (\<lambda>j. j = (0::nat)) [0 ..< Suc k] = True # replicate k False"
proof -
  have "map (\<lambda>j. j = (0::nat)) [Suc 0 ..< Suc k] = map (\<lambda>j. False) [Suc 0 ..< Suc k]"
    by (rule map_cong) auto
  also have "\<dots> = replicate k False" by (simp add: map_replicate_const)
  finally show ?thesis by (simp add: upt_rec)
qed

subsection \<open>Restore against a replay of openPdfInTab\<close>

lemma replay_after_reload:
  assumes sess: "aim_session s0 = Some st"
    and dist: "distinct (map st_filename (openTabs st))"
    and np: "\<forall>t \<in> set (openTabs st). st_filename t \<notin> set protoKeys"
  shows "\<exists>p. restoreByReplay (reloadPage fb l s0) = Returned p
    \<and> checkboxes p = checkboxes (foldl restoreLayer (reloadPage fb l s0) (enabledLayers st))
    \<and> openPdfs p = replayedEntries 0 (openTabs st)
    \<and> map tabId (pdfTabs p) = [0 ..< length (openTabs st)]
    \<and> map spanLabel (pdfTabs p) = map replayedTitle (openTabs st)
    \<and> map closeBtn (pdfTabs p) = map (\<lambda>t. CallsClosePdfTab (st_filename t)) (openTabs st)
    \<and> map active (pdfTabs p) = (case openTabs st of [] \<Rightarrow> [] | t # ts \<Rightarrow> True # map (\<lambda>t. False) ts)
    \<and> activePdfKey p = (case openTabs st of [] \<Rightarrow> None | t # ts \<Rightarrow> Some (st_filename t))
    \<and> pdfViewer p
         = (case openTabs st of
              [] \<Rightarrow> map_option (\<lambda>old. []) (pdfViewer s0)
            | t # ts \<Rightarrow> map_option (\<lambda>old. buildPdfJsViewerUrl (st_url t)
                                       (pdfViewOpts (replayedTitle t)))
                         (pdfViewer s0))"
proof -
  define fresh where "fresh = reloadPage fb l s0"
  define s1 where "s1 = foldl restoreLayer fresh (enabledLayers st)"
  have f1: "openPdfs s1 = []" "pdfTabs s1 = []" "nextElem s1 = 0"
    "pdfViewer s1 = map_option (\<lambda>old. []) (pdfViewer s0)" "activePdfKey s1 = None"
    by (simp_all add: s1_def fresh_def restoreLayers_tabs reloadPage_fields)
  have unfold: "restoreByReplay fresh =
      (case openTabs st of [] \<Rightarrow> Returned s1
       | first # rest \<Rightarrow> andThen (replayTabs (openTabs st) s1) (activatePdfTab (st_filename first)))"
    unfolding s1_def fresh_def
    by (simp add: restoreByReplay_def reloadPage_fields sess Let_def)
  show ?thesis
  proof (cases "openTabs st")
    case Nil
    have "restoreByReplay fresh = Returned s1" by (simp add: unfold Nil)
    then show ?thesis
      unfolding fresh_def[symmetric] s1_def[symmetric] using Nil by (simp add: f1)
  next
    case (Cons t ts)
    have free: "\<forall>u \<in> set (openTabs st). \<not> truthyProp (getProp (openPdfs s1) (st_filename u))"
      using np by (simp add: truthy_getProp f1)
    obtain p0 where p0: "replayTabs (openTabs st) s1 = Returned p0"
      "openPdfs p0 = openPdfs s1 @ replayedEntries (nextElem s1) (openTabs st)"
      "map tabId (pdfTabs p0) = map tabId (pdfTabs s1) @ [nextElem s1 ..< nextElem s1 + length (openTabs st)]"
      "map spanLabel (pdfTabs p0) = map spanLabel (pdfTabs s1) @ map replayedTitle (openTabs st)"
      "map closeBtn (pdfTabs p0)
         = map closeBtn (pdfTabs s1) @ map (\<lambda>t. CallsClosePdfTab (st_filename t)) (openTabs st)"
      "nextElem p0 = nextElem s1 + length (openTabs st)" "checkboxes p0 = checkboxes s1"
      "(pdfViewer p0 = None) = (pdfViewer s1 = None)"
      using replayTabs_fresh[OF dist free] by (elim exE conjE) (rule that)
    define e where "e = \<lparr>tab = 0, url = st_url t, label = replayedTitle t,
        filename = Some (st_filename t), aimTitle = replayedTitle t\<rparr>"
    have o0: "openPdfs p0 = replayedEntries 0 (openTabs st)" by (simp add: p0(2) f1)
    have look: "map_of (openPdfs p0) (st_filename t) = Some e" by (simp add: o0 Cons e_def)
    obtain p where p: "activatePdfTab (st_filename t) p0 = Returned p"
      "activePdfKey p = Some (st_filename t)"
      "pdfTabs p = addActive (tab e) (clearActive (openPdfs p0) (pdfTabs p0))"
      "pdfViewer p = map_option (\<lambda>old. buildPdfJsViewerUrl (url e) (pdfViewOpts (aimTitle e))) (pdfViewer p0)"
      "openPdfs p = openPdfs p0" "checkboxes p = checkboxes p0"
      using activatePdfTab_own[OF look] by auto
    have run: "restoreByReplay fresh = Returned p"
      using p0(1) p(1) by (simp add: unfold Cons)
    have ids: "map tabId (pdfTabs p0) = [0 ..< length (openTabs st)]" by (simp add: p0(3) f1)
    have "set (map tabId (pdfTabs p0)) \<subseteq> set (entryTabs (openPdfs p0))"
      by (simp add: ids o0 entryTabs_replayedEntries)
    then have "map active (pdfTabs p) = map (\<lambda>el. tabId el = 0) (pdfTabs p0)"
      unfolding p(3) by (simp add: active_only e_def)
    also have "\<dots> = map (\<lambda>j. j = 0) (map tabId (pdfTabs p0))" by (simp add: comp_def)
    also have "\<dots> = True # replicate (length ts) False"
      unfolding ids Cons by (simp only: length_Cons first_of_range)
    finally have act: "map active (pdfTabs p) = True # map (\<lambda>t. False) ts"
      by (simp add: map_replicate_const)
    have tid: "map tabId (pdfTabs p) = [0 ..< length (openTabs st)]"
      by (simp add: p(3) tabId_addActive tabId_clearActive ids)
    have lab: "map spanLabel (pdfTabs p) = map replayedTitle (openTabs st)"
      by (simp add: p(3) spanLabel_addActive spanLabel_clearActive p0(4) f1)
    have vw0: "(pdfViewer p0 = None) = (pdfViewer s0 = None)" by (simp add: p0(8) f1)
    have vw: "pdfViewer p = map_option (\<lambda>old. buildPdfJsViewerUrl (st_url t)
                                       (pdfViewOpts (replayedTitle t))) (pdfViewer s0)"
      using vw0 by (cases "pdfViewer p0"; cases "pdfViewer s0") (simp_all add: p(4) e_def)
    have bp: "map closeBtn (pdfTabs p) = map (\<lambda>t. CallsClosePdfTab (st_filename t)) (openTabs st)"
      by (simp add: p(3) closeBtn_addActive closeBtn_clearActive p0(5) f1)
    have cb: "checkboxes p = checkboxes s1" by (simp add: p(6) p0(7))
    have op: "openPdfs p = replayedEntries 0 (openTabs st)" by (simp add: p(5) o0)
    show ?thesis
      unfolding fresh_def[symmetric] s1_def[symmetric] run
      by (intro exI[of _ p] conjI) (simp_all add: cb op tid lab bp act vw p(2) Cons)
  qed
qed

lemma closePdfTab_single:
  assumes "openPdfs s = [(k, e)]" and "activePdfKey s = Some k"
  shows "activePdfKey (stateOf (closePdfTab k s)) = None"
  using assms
  by (simp add: closePdfTab_def getProp_def deleteProp_def ownKeys_def Let_def persist_fields
      blankViewer_fields)

lemma demoReplayed_fields:
  "openPdfs demoReplayed =
     [(''a.pdf'', \<lparr>tab = 0, url = ''/static/pdfs/1920s/a.pdf'', label = ''Report A'',
                   filename = Some ''a.pdf'', aimTitle = ''Report A''\<rparr>)]"
  "map closeBtn (pdfTabs demoReplayed) = [CallsClosePdfTab ''a.pdf'']"
  "activePdfKey demoReplayed = Some ''a.pdf''"
proof -
  define st where "st = \<lparr>enabledLayers = [''Street Overlay''],
         openTabs = [\<lparr>st_filename = ''a.pdf'', st_url = ''/static/pdfs/1920s/a.pdf'',
                      st_label = ''Report A'', st_aimTitle = ''Report A''\<rparr>]\<rparr>"
  have sess: "aim_session demoOneTab = Some st" by (simp add: demoOneTab_def demoApp_def st_def)
  have dist: "distinct (map st_filename (openTabs st))" by (simp add: st_def)
  have np: "\<forall>t \<in> set (openTabs st). st_filename t \<notin> set protoKeys"
    by (simp add: st_def protoKeys_def)
  obtain p where p: "restoreByReplay (reloadPage [hybridBox] [0, 1] demoOneTab) = Returned p"
    "openPdfs p = replayedEntries 0 (openTabs st)"
    "map closeBtn (pdfTabs p) = map (\<lambda>t. CallsClosePdfTab (st_filename t)) (openTabs st)"
    "activePdfKey p = (case openTabs st of [] \<Rightarrow> None | t # ts \<Rightarrow> Some (st_filename t))"
    using replay_after_reload[OF sess dist np, of "[hybridBox]" "[0, 1]"] by (elim exE conjE)
  have d: "demoReplayed = p" unfolding demoReplayed_def p(1) by simp
  show "openPdfs demoReplayed =
     [(''a.pdf'', \<lparr>tab = 0, url = ''/static/pdfs/1920s/a.pdf'', label = ''Report A'',
                   filename = Some ''a.pdf'', aimTitle = ''Report A''\<rparr>)]"
    unfolding d p(2) by (simp add: st_def replayedTitle_def trim_def isSpace_def)
  show "map closeBtn (pdfTabs demoReplayed) = [CallsClosePdfTab ''a.pdf'']"
    unfolding d p(3) by (simp add: st_def)
  show "activePdfKey demoReplayed = Some ''a.pdf''"
    unfolding d p(4) by (simp add: st_def)
qed

text \<open>
  Claim C3, as the code has it. Session restore is a code path of its own: it builds the
  tabs itself and never calls \<open>openPdfInTab\<close>. On a freshly loaded page, for a persisted
  tab list whose keys are pairwise different and are not inherited property names, and
  whose titles restore resolves (from the archive feed, else from the persisted title) to
  the titles \<open>openPdfInTab\<close> derives from the persisted ones, restore yields the same
  keys in the same order, the same tab element, URL, label and title for each key, the
  same tab strip (elements, labels and active marks), the same active key, the same
  viewer address and the same check boxes as calling \<open>openPdfInTab\<close> for every persisted
  tab and then activating the first one. The two differ in what else they leave behind:
  restored entries carry no \<open>filename\<close> field, and restored tabs get the close handler
  of lines 1152-1161 where replayed tabs get \<open>closePdfTab\<close>.
\<close>

theorem restore_agrees_with_replay:
  assumes sess: "aim_session s0 = Some st"
    and dist: "distinct (map st_filename (openTabs st))"
    and np: "\<forall>t \<in> set (openTabs st). st_filename t \<notin> set protoKeys"
    and titles: "\<forall>t \<in> set (openTabs st). restoredTitle (archiveData s0) t = replayedTitle t"
  shows "\<exists>p. restoreByReplay (reloadPage fb l s0) = Returned p
    \<and> map fst (openPdfs (restoreStateFromSession (reloadPage fb l s0))) = map fst (openPdfs p)
    \<and> map (\<lambda>(k, e). (tab e, url e, label e, aimTitle e))
          (openPdfs (restoreStateFromSession (reloadPage fb l s0)))
        = map (\<lambda>(k, e). (tab e, url e, label e, aimTitle e)) (openPdfs p)
    \<and> map tabId (pdfTabs (restoreStateFromSession (reloadPage fb l s0))) = map tabId (pdfTabs p)
    \<and> map spanLabel (pdfTabs (restoreStateFromSession (reloadPage fb l s0)))
        = map spanLabel (pdfTabs p)
    \<and> map active (pdfTabs (restoreStateFromSession (reloadPage fb l s0))) = map active (pdfTabs p)
    \<and> activePdfKey (restoreStateFromSession (reloadPage fb l s0)) = activePdfKey p
    \<and> pdfViewer (restoreStateFromSession (reloadPage fb l s0)) = pdfViewer p
    \<and> checkboxes (restoreStateFromSession (reloadPage fb l s0)) = checkboxes p
    \<and> map (\<lambda>(k, e). filename e) (openPdfs (restoreStateFromSession (reloadPage fb l s0)))
        = map (\<lambda>t. None) (openTabs st)
    \<and> map (\<lambda>(k, e). filename e) (openPdfs p) = map (\<lambda>t. Some (st_filename t)) (openTabs st)
    \<and> map closeBtn (pdfTabs (restoreStateFromSession (reloadPage fb l s0)))
        = map (\<lambda>t. RestoredClose (st_filename t)) (openTabs st)
    \<and> map closeBtn (pdfTabs p) = map (\<lambda>t. CallsClosePdfTab (st_filename t)) (openTabs st)"
proof -
  define r where "r = restoreStateFromSession (reloadPage fb l s0)"
  note R = restore_after_reload[OF sess dist np, of fb l, folded r_def]
  note R2 = R[THEN conjunct2]
  note R3 = R2[THEN conjunct2]
  note R4 = R3[THEN conjunct2]
  note R5 = R4[THEN conjunct2]
  note R6 = R5[THEN conjunct2]
  note R7 = R6[THEN conjunct2]
  note R8 = R7[THEN conjunct2]
  note R9 = R8[THEN conjunct2]
  note cbR = R2[THEN conjunct1] and opR = R3[THEN conjunct1] and idR = R4[THEN conjunct1]
    and labR = R5[THEN conjunct1] and btnR = R6[THEN conjunct1] and actR = R7[THEN conjunct1]
    and keyR = R8[THEN conjunct1] and vwR = R9[THEN conjunct1]
  obtain p where run: "restoreByReplay (reloadPage fb l s0) = Returned p"
    and cbP: "checkboxes p = checkboxes (foldl restoreLayer (reloadPage fb l s0) (enabledLayers st))"
    and opP: "openPdfs p = replayedEntries 0 (openTabs st)"
    and idP: "map tabId (pdfTabs p) = [0 ..< length (openTabs st)]"
    and labP: "map spanLabel (pdfTabs p) = map replayedTitle (openTabs st)"
    and btnP: "map closeBtn (pdfTabs p) = map (\<lambda>t. CallsClosePdfTab (st_filename t)) (openTabs st)"
    and actP: "map active (pdfTabs p) = (case openTabs st of [] \<Rightarrow> [] | t # ts \<Rightarrow> True # map (\<lambda>t. False) ts)"
    and keyP: "activePdfKey p = (case openTabs st of [] \<Rightarrow> None | t # ts \<Rightarrow> Some (st_filename t))"
    and vwP: "pdfViewer p
         = (case openTabs st of
              [] \<Rightarrow> map_option (\<lambda>old. []) (pdfViewer s0)
            | t # ts \<Rightarrow> map_option (\<lambda>old. buildPdfJsViewerUrl (st_url t)
                                       (pdfViewOpts (replayedTitle t)))
                         (pdfViewer s0))"
    using replay_after_reload[OF sess dist np, of fb l] by (elim exE conjE)
  have ents: "map (\<lambda>(k, e). (tab e, url e, label e, aimTitle e)) (restoredEntries (archiveData s0) n ts)
        = map (\<lambda>(k, e). (tab e, url e, label e, aimTitle e)) (replayedEntries n ts)"
    if "\<forall>t \<in> set ts. restoredTitle (archiveData s0) t = replayedTitle t" for n ts
    using that by (induction ts arbitrary: n) simp_all
  have labs: "map spanLabel (restoredEls (archiveData s0) n ts) = map replayedTitle ts"
    if "\<forall>t \<in> set ts. restoredTitle (archiveData s0) t = replayedTitle t" for n ts
    using that by (induction ts arbitrary: n) simp_all
  have btns: "map closeBtn (restoredEls (archiveData s0) n ts)
        = map (\<lambda>t. RestoredClose (st_filename t)) ts" for n ts
    by (induction ts arbitrary: n) simp_all
  have fr: "map (\<lambda>(k, e). filename e) (restoredEntries (archiveData s0) n ts) = map (\<lambda>t. None) ts"
    for n ts by (induction ts arbitrary: n) simp_all
  have fp: "map (\<lambda>(k, e). filename e) (replayedEntries n ts) = map (\<lambda>t. Some (st_filename t)) ts"
    for n ts by (induction ts arbitrary: n) simp_all
  have vw: "pdfViewer r = pdfViewer p"
  proof (cases "openTabs st")
    case Nil
    then show ?thesis by (simp add: vwR vwP)
  next
    case (Cons t ts)
    then have "restoredTitle (archiveData s0) t = replayedTitle t" using titles by simp
    then show ?thesis using Cons by (simp add: vwR vwP)
  qed
  show ?thesis
    unfolding r_def[symmetric] run
  proof (intro exI[of _ p] conjI)
    show "map fst (openPdfs r) = map fst (openPdfs p)"
      by (simp add: opR opP keys_restoredEntries keys_replayedEntries)
    show "map (\<lambda>(k, e). (tab e, url e, label e, aimTitle e)) (openPdfs r)
        = map (\<lambda>(k, e). (tab e, url e, label e, aimTitle e)) (openPdfs p)"
      unfolding opR opP by (rule ents[OF titles])
    show "map (\<lambda>(k, e). filename e) (openPdfs r) = map (\<lambda>t. None) (openTabs st)"
      unfolding opR by (rule fr)
    show "map (\<lambda>(k, e). filename e) (openPdfs p) = map (\<lambda>t. Some (st_filename t)) (openTabs st)"
      unfolding opP by (rule fp)
    show "map spanLabel (pdfTabs r) = map spanLabel (pdfTabs p)"
      by (simp add: labR labP labs[OF titles])
    show "map closeBtn (pdfTabs r) = map (\<lambda>t. RestoredClose (st_filename t)) (openTabs st)"
      by (simp add: btnR btns)
    show "pdfViewer r = pdfViewer p" by (rule vw)
  qed (simp_all only: idR idP actR actP keyR keyP cbR cbP btnP)
qed

theorem restore_agrees_with_replay_witness:
  "aim_session demoTwoTabs = Some demoTwoSaved
   \<and> distinct (map st_filename (openTabs demoTwoSaved))
   \<and> list_all (\<lambda>t. st_filename t \<notin> set protoKeys) (openTabs demoTwoSaved)
   \<and> list_all (\<lambda>t. restoredTitle (archiveData demoTwoTabs) t = replayedTitle t)
         (openTabs demoTwoSaved)
   \<and> map fst (openPdfs (restoreStateFromSession (reloadPage [hybridBox] [0, 1] demoTwoTabs)))
       = map fst (openPdfs (stateOf (restoreByReplay (reloadPage [hybridBox] [0, 1] demoTwoTabs))))
   \<and> map active (pdfTabs (restoreStateFromSession (reloadPage [hybridBox] [0, 1] demoTwoTabs)))
       = map active (pdfTabs (stateOf (restoreByReplay (reloadPage [hybridBox] [0, 1] demoTwoTabs))))
   \<and> activePdfKey (restoreStateFromSession (reloadPage [hybridBox] [0, 1] demoTwoTabs))
       = activePdfKey (stateOf (restoreByReplay (reloadPage [hybridBox] [0, 1] demoTwoTabs)))
   \<and> pdfViewer (restoreStateFromSession (reloadPage [hybridBox] [0, 1] demoTwoTabs))
       = pdfViewer (stateOf (restoreByReplay (reloadPage [hybridBox] [0, 1] demoTwoTabs)))
   \<and> map closeBtn (pdfTabs (restoreStateFromSession (reloadPage [hybridBox] [0, 1] demoTwoTabs)))
       = [RestoredClose ''a.pdf'', RestoredClose ''a.pdf (2)'']
   \<and> map closeBtn (pdfTabs (stateOf (restoreByReplay (reloadPage [hybridBox] [0, 1] demoTwoTabs))))
       = [CallsClosePdfTab ''a.pdf'', CallsClosePdfTab ''a.pdf (2)'']"
proof -
  have h1: "aim_session demoTwoTabs = Some demoTwoSaved"
    by (simp add: demoTwoTabs_def demoApp_def demoTwoSaved_def)
  have h2: "distinct (map st_filename (openTabs demoTwoSaved))" by (simp add: demoTwoSaved_def)
  have h3: "\<forall>t \<in> set (openTabs demoTwoSaved). st_filename t \<notin> set protoKeys"
    by (simp add: demoTwoSaved_def protoKeys_def)
  have ar: "archiveData demoTwoTabs = []" by (simp add: demoTwoTabs_def demoApp_def)
  have h4: "\<forall>t \<in> set (openTabs demoTwoSaved).
      restoredTitle (archiveData demoTwoTabs) t = replayedTitle t"
    by (simp add: ar restoredTitle_no_archive demoTwoSaved_def replayedTitle_def trim_def isSpace_def)
  have tabs: "map st_filename (openTabs demoTwoSaved) = [''a.pdf'', ''a.pdf (2)'']"
    by (simp add: demoTwoSaved_def)
  from restore_agrees_with_replay[OF h1 h2 h3 h4, of "[hybridBox]" "[0, 1]"]
  obtain p where p: "restoreByReplay (reloadPage [hybridBox] [0, 1] demoTwoTabs) = Returned p"
    and rest: "map fst (openPdfs (restoreStateFromSession (reloadPage [hybridBox] [0, 1] demoTwoTabs)))
        = map fst (openPdfs p)"
      "map active (pdfTabs (restoreStateFromSession (reloadPage [hybridBox] [0, 1] demoTwoTabs)))
        = map active (pdfTabs p)"
      "activePdfKey (restoreStateFromSession (reloadPage [hybridBox] [0, 1] demoTwoTabs))
        = activePdfKey p"
      "pdfViewer (restoreStateFromSession (reloadPage [hybridBox] [0, 1] demoTwoTabs)) = pdfViewer p"
      "map closeBtn (pdfTabs (restoreStateFromSession (reloadPage [hybridBox] [0, 1] demoTwoTabs)))
        = map (\<lambda>t. RestoredClose (st_filename t)) (openTabs demoTwoSaved)"
      "map closeBtn (pdfTabs p) = map (\<lambda>t. CallsClosePdfTab (st_filename t)) (openTabs demoTwoSaved)"
    by (elim exE conjE)
  have l: "list_all (\<lambda>t. st_filename t \<notin> set protoKeys) (openTabs demoTwoSaved)"
    "list_all (\<lambda>t. restoredTitle (archiveData demoTwoTabs) t = replayedTitle t)
         (openTabs demoTwoSaved)"
    using h3 h4 by (simp_all add: list_all_iff)
  have b: "map (\<lambda>t. RestoredClose (st_filename t)) (openTabs demoTwoSaved)
        = [RestoredClose ''a.pdf'', RestoredClose ''a.pdf (2)'']"
    "map (\<lambda>t. CallsClosePdfTab (st_filename t)) (openTabs demoTwoSaved)
        = [CallsClosePdfTab ''a.pdf'', CallsClosePdfTab ''a.pdf (2)'']"
    by (simp_all add: demoTwoSaved_def)
  show ?thesis
    unfolding p stateOf.simps
    by (intro conjI) (simp_all only: h1 h2 l rest b)
qed

text \<open>
  The claim as the spec states it fails: after a reload of the page with one tab, the
  entry restore registers has no \<open>filename\<close> field and its close button carries the
  handler of lines 1152-1161, where the replay through \<open>openPdfInTab\<close> records the file
  name and installs \<open>closePdfTab\<close>; clicking the two buttons leaves different states.
\<close>

theorem restore_replay_counterexample:
  "map (\<lambda>(k, e). filename e) (openPdfs demoRestored) = [None]
   \<and> map (\<lambda>(k, e). filename e) (openPdfs demoReplayed) = [Some ''a.pdf'']
   \<and> map closeBtn (pdfTabs demoRestored) = [RestoredClose ''a.pdf'']
   \<and> map closeBtn (pdfTabs demoReplayed) = [CallsClosePdfTab ''a.pdf'']
   \<and> activePdfKey (stateOf (clickClose examplePage (hd (pdfTabs demoRestored)) demoRestored))
       = Some ''a.pdf''
   \<and> activePdfKey (stateOf (clickClose examplePage (hd (pdfTabs demoReplayed)) demoReplayed))
       = None"
proof -
  have d: "deleteProp (openPdfs demoRestored) ''a.pdf'' = []"
    by (simp add: demoRestored_fields deleteProp_def)
  have r: "activePdfKey (stateOf (clickClose examplePage (hd (pdfTabs demoRestored)) demoRestored))
      = Some ''a.pdf''"
    using restoredClose_last_tab[OF demoRestored_fields(3) d, of examplePage 0]
    by (simp add: demoRestored_fields clickClose_def)
  have "closeBtn (hd (pdfTabs demoReplayed)) = CallsClosePdfTab ''a.pdf''"
    using demoReplayed_fields(2) by (cases "pdfTabs demoReplayed") simp_all
  then have p: "activePdfKey (stateOf (clickClose examplePage (hd (pdfTabs demoReplayed)) demoReplayed))
      = None"
    using closePdfTab_single[OF demoReplayed_fields(1) demoReplayed_fields(3)]
    by (simp add: clickClose_def)
  show ?thesis using r p by (simp add: demoRestored_fields demoReplayed_fields)
qed

subsection \<open>Persist, reload, restore: the whole reload\<close>



























lemma check_again: "checked (cbs ! i) \<Longrightarrow> cbs[i := (cbs ! i)\<lparr>checked := True\<rparr>] = cbs"
proof -
  assume "checked (cbs ! i)"
  then have "(cbs ! i)\<lparr>checked := True\<rparr> = cbs ! i" by simp
  then show ?thesis by (simp only: list_update_id)
qed

lemma checkForced_quiet: "ruleQuiet cbs rows \<Longrightarrow> foldl checkForced cbs rows = cbs"
  by (induction rows) (auto simp: ruleQuiet_def checkForced_def check_again split: option.splits)







subsection \<open>Persist, reload, restore: the claim\<close>


lemma demoHybridOn_reached:
  "changeHandler 2 (demoTwoTabs\<lparr>checkboxes := (checkboxes demoTwoTabs)[2 := (checkboxes demoTwoTabs ! 2)\<lparr>checked := True\<rparr>]\<rparr>)
     = demoHybridOn"
  by (simp add: demoHybridOn_def demoTwoTabs_def demoApp_def changeHandler_def enableLayer_def
      mapAddLayer_def getProp_def persistStateToSession_def startupCheckboxes_def persistedId_def
      ownKeys_def isArrayIndex_def isDigit_def Z_IMAGERY_def Let_def)





lemma demoOsmOn_reached:
  "changeHandler 1 (demoApp\<lparr>checkboxes := (checkboxes demoApp)[1 := (checkboxes demoApp ! 1)\<lparr>checked := True\<rparr>]\<rparr>)
     = demoOsmOn"
  by (simp add: demoOsmOn_def demoApp_def changeHandler_def enableLayer_def mapAddLayer_def
      isVectorStreet_def getProp_def persistStateToSession_def startupCheckboxes_def
      persistedId_def ownKeys_def Let_def)




end
